theory Spec2Isabelle
  imports Main "HOL-Library.Word"
begin

unbundle bit_operations_syntax

section \<open>Machine types and constants\<close>

text \<open>
  The wrapper is compiled for 64-bit Linux: \<open>size_t\<close> and \<open>void*\<close> are 64-bit words,
  \<open>ssize_t\<close> and \<open>off_t\<close> are their signed readings, and the \<open>int\<close> bit masks
  (\<open>prot\<close>, \<open>flags\<close>) are 32-bit words. Descriptors, offsets and return codes are
  compared as signed numbers only, so they are kept as \<open>int\<close>.
\<close>

type_synonym size_t = "64 word"
type_synonym ptr = "64 word"
type_synonym byte = "8 word"
type_synonym cint = "32 word"

definition nullptr :: ptr where
  "nullptr = 0"

definition MAP_FAILED :: ptr where
  "MAP_FAILED = - 1"

definition PROT_READ :: cint where
  "PROT_READ = 1"

definition PROT_WRITE :: cint where
  "PROT_WRITE = 2"

definition MAP_PRIVATE :: cint where
  "MAP_PRIVATE = 0x02"

definition MAP_ANONYMOUS :: cint where
  "MAP_ANONYMOUS = 0x20"

definition MAP_HUGETLB :: cint where
  "MAP_HUGETLB = 0x40000"

definition HUGETLBFS_MAGIC :: int where
  "HUGETLBFS_MAGIC = 0x958458f6"

text \<open>\<^verbatim>\<open>const size_t chunk_size = 64 * 1024 * 1024;\<close>\<close>

definition chunk_size :: size_t where
  "chunk_size = 64 * 1024 * 1024"

section \<open>The operating system the wrapper runs on\<close>

text \<open>
  The wrapper is glue between its caller and the kernel, so the embedding carries an
  explicit operating-system state. Every primitive the source calls is a function on
  that state. What the kernel decides on its own (which address a mapping gets, whether
  an allocation or a protection change fails, how many bytes one \<open>read\<close> delivers) is
  read from scripts stored in the state, one entry per call, so that every run is
  deterministic and can be evaluated. The huge page size is a parameter of the system.
\<close>

datatype read_outcome = Read_error | Read_upto nat

record open_file =
  f_type :: "int option"
  stat_ok :: bool
  content :: "byte list"
  pos :: nat
  seekable :: bool
  reads :: "read_outcome list"

record region =
  r_prot :: cint
  r_flags :: cint
  r_bytes :: "byte list"

text \<open>
  The calls that allocate, protect or release memory, and the symbol lookups, are
  logged in order; the log is how a theorem says which primitive was invoked with which
  arguments.
\<close>

datatype call =
    Dlsym string
  | Real_mmap ptr size_t cint cint int int
  | Real_munmap ptr size_t
  | Mprotect ptr size_t cint

record os =
  symbols :: "string \<Rightarrow> ptr"
  files :: "int \<rightharpoonup> open_file"
  mem :: "ptr \<rightharpoonup> region"
  mmap_script :: "ptr option list"
  mprotect_script :: "bool list"
  huge_page_size :: nat
  calls :: "call list"

text \<open>\<open>dlsym(RTLD_NEXT, name)\<close>: the next definition of the symbol, or null.\<close>

definition dlsym :: "os \<Rightarrow> string \<Rightarrow> ptr \<times> os" where
  "dlsym w name = (symbols w name, w\<lparr>calls := calls w @ [Dlsym name]\<rparr>)"

text \<open>\<open>fstatfs\<close>: the filesystem type of the descriptor's mount, or failure.\<close>

definition fstatfs :: "os \<Rightarrow> int \<Rightarrow> int option" where
  "fstatfs w fd = (case files w fd of None \<Rightarrow> None | Some f \<Rightarrow> f_type f)"

text \<open>\<open>fstat\<close>: the \<open>st_size\<close> of the file, or failure.\<close>

definition fstat :: "os \<Rightarrow> int \<Rightarrow> int option" where
  "fstat w fd =
     (case files w fd of
        None \<Rightarrow> None
      | Some f \<Rightarrow> if stat_ok f then Some (int (length (content f))) else None)"

text \<open>
  The bytes a new mapping shows: zeros for an anonymous one, the file's bytes from the
  offset (zero-padded to the length) for a file-backed one.
\<close>

definition initial_bytes :: "os \<Rightarrow> size_t \<Rightarrow> cint \<Rightarrow> int \<Rightarrow> int \<Rightarrow> byte list" where
  "initial_bytes w len flags fd off =
     (if flags AND MAP_ANONYMOUS \<noteq> 0 then replicate (unat len) 0
      else case files w fd of
             None \<Rightarrow> replicate (unat len) 0
           | Some f \<Rightarrow>
               (let bs = take (unat len) (drop (nat off) (content f))
                in bs @ replicate (unat len - length bs) 0))"

text \<open>
  The real \<open>mmap\<close>. A zero length is refused (POSIX: \<open>EINVAL\<close>), and so is a
  file-backed request on a descriptor that is not open. Otherwise the script decides:
  \<open>None\<close> is an allocation failure, \<open>Some a\<close> places the region at \<open>a\<close>, which must be
  a free address other than the failure sentinel.
\<close>

definition libc_mmap :: "os \<Rightarrow> ptr \<Rightarrow> size_t \<Rightarrow> cint \<Rightarrow> cint \<Rightarrow> int \<Rightarrow> int \<Rightarrow> ptr \<times> os" where
  "libc_mmap w addr len prot flags fd off =
     (let w1 = w\<lparr>calls := calls w @ [Real_mmap addr len prot flags fd off]\<rparr> in
      if len = 0 then (MAP_FAILED, w1)
      else if flags AND MAP_ANONYMOUS = 0 \<and> files w fd = None then (MAP_FAILED, w1)
      else case mmap_script w of
             [] \<Rightarrow> (MAP_FAILED, w1)
           | None # rest \<Rightarrow> (MAP_FAILED, w1\<lparr>mmap_script := rest\<rparr>)
           | Some a # rest \<Rightarrow>
               if a = MAP_FAILED \<or> mem w a \<noteq> None then (MAP_FAILED, w1\<lparr>mmap_script := rest\<rparr>)
               else (a, w1\<lparr>mmap_script := rest,
                           mem := (mem w)(a \<mapsto> \<lparr>r_prot = prot, r_flags = flags,
                                                  r_bytes = initial_bytes w len flags fd off\<rparr>)\<rparr>))"

text \<open>
  The real \<open>munmap\<close>. A zero length is refused; a range with no region at its base is
  accepted and changes nothing. For a region mapped with \<open>MAP_HUGETLB\<close> the length must
  be a multiple of the system's huge page size: otherwise the call fails (\<open>EINVAL\<close>) and
  the region stays mapped. Apart from that, a range covering the region at its base
  removes it, and a shorter range leaves the region's tail mapped.
\<close>

definition libc_munmap :: "os \<Rightarrow> ptr \<Rightarrow> size_t \<Rightarrow> int \<times> os" where
  "libc_munmap w addr len =
     (let w1 = w\<lparr>calls := calls w @ [Real_munmap addr len]\<rparr> in
      if len = 0 then (- 1, w1)
      else case mem w addr of
             None \<Rightarrow> (0, w1)
           | Some r \<Rightarrow>
               if r_flags r AND MAP_HUGETLB \<noteq> 0 \<and> unat len mod huge_page_size w \<noteq> 0
               then (- 1, w1)
               else if length (r_bytes r) \<le> unat len
               then (0, w1\<lparr>mem := (mem w)(addr := None)\<rparr>)
               else (0, w1\<lparr>mem := ((mem w)(addr := None))
                                      (addr + len \<mapsto> r\<lparr>r_bytes := drop (unat len) (r_bytes r)\<rparr>)\<rparr>))"

text \<open>
  \<open>mprotect\<close> on the region based at the address: the script may make it fail, and it
  fails when nothing is mapped there.
\<close>

definition mprotect :: "os \<Rightarrow> ptr \<Rightarrow> size_t \<Rightarrow> cint \<Rightarrow> int \<times> os" where
  "mprotect w addr len prot =
     (let w1 = w\<lparr>calls := calls w @ [Mprotect addr len prot],
                 mprotect_script := tl (mprotect_script w)\<rparr> in
      if mprotect_script w \<noteq> [] \<and> \<not> hd (mprotect_script w) then (- 1, w1)
      else case mem w addr of
             None \<Rightarrow> (- 1, w1)
           | Some r \<Rightarrow> (0, w1\<lparr>mem := (mem w)(addr \<mapsto> r\<lparr>r_prot := prot\<rparr>)\<rparr>))"

text \<open>
  \<open>lseek(fd, offset, SEEK_SET)\<close>: the new position, or \<open>-1\<close> on a descriptor that is
  closed or cannot seek.
\<close>

definition lseek :: "os \<Rightarrow> int \<Rightarrow> int \<Rightarrow> int \<times> os" where
  "lseek w fd off =
     (case files w fd of
        None \<Rightarrow> (- 1, w)
      | Some f \<Rightarrow>
          if seekable f \<and> 0 \<le> off
          then (off, w\<lparr>files := (files w)(fd \<mapsto> f\<lparr>pos := nat off\<rparr>)\<rparr>)
          else (- 1, w))"

text \<open>
  \<open>read(fd, base + off, count)\<close>, the buffer given as a region's base and an offset into
  it. The next script entry is consumed: \<open>Read_error\<close> returns \<open>-1\<close>; \<open>Read_upto k\<close>
  delivers at most \<open>k\<close> bytes; with the script exhausted the kernel delivers all it can.
  The bytes come from the file's position, which advances; at end of file none are left
  and the call returns 0. A buffer outside mapped memory is a fault (\<open>-1\<close>).
\<close>

definition read_count :: "read_outcome list \<Rightarrow> size_t \<Rightarrow> nat" where
  "read_count sc count =
     (case sc of Read_upto k # _ \<Rightarrow> min k (unat count) | _ \<Rightarrow> unat count)"

definition store :: "byte list \<Rightarrow> nat \<Rightarrow> byte list \<Rightarrow> byte list" where
  "store old off bs = take off old @ bs @ drop (off + length bs) old"

definition read :: "os \<Rightarrow> int \<Rightarrow> ptr \<Rightarrow> int \<Rightarrow> size_t \<Rightarrow> int \<times> os" where
  "read w fd base off count =
     (case files w fd of
        None \<Rightarrow> (- 1, w)
      | Some f \<Rightarrow>
          (let f1 = f\<lparr>reads := tl (reads f)\<rparr>;
               w1 = w\<lparr>files := (files w)(fd \<mapsto> f1)\<rparr> in
           if reads f \<noteq> [] \<and> hd (reads f) = Read_error then (- 1, w1)
           else
             (let bs = take (read_count (reads f) count) (drop (pos f) (content f)) in
              case mem w base of
                None \<Rightarrow> (- 1, w1)
              | Some r \<Rightarrow>
                  if off < 0 \<or> length (r_bytes r) < nat off + length bs then (- 1, w1)
                  else (int (length bs),
                        w\<lparr>files := (files w)(fd \<mapsto> f1\<lparr>pos := pos f + length bs\<rparr>),
                          mem := (mem w)(base \<mapsto> r\<lparr>r_bytes := store (r_bytes r) (nat off) bs\<rparr>)\<rparr>))))"

section \<open>The wrapper's process-wide state\<close>

text \<open>
  \<^verbatim>\<open>struct HugePageAllocation { void* addr; size_t size; HugePageAllocation* next; };\<close>
  The chain through \<open>next\<close> is the list itself: \<open>allocations\<close> points at the head, and
  a node that is unlinked is freed in the same step, so a record is live exactly while
  it is in the list. \<open>malloc\<close> is taken to succeed. The two handles are null or
  what \<open>dlsym\<close> returned; a call through a bound handle is a call of the C library's
  function, \<open>libc_mmap\<close> or \<open>libc_munmap\<close>.
\<close>

record HugePageAllocation =
  addr :: ptr
  size' :: size_t

record state =
  real_mmap :: ptr
  real_munmap :: ptr
  allocations :: "HugePageAllocation list"
  world :: os

text \<open>A call either returns, or ends the process through \<open>exit\<close>.\<close>

datatype 'a outcome = Exit int | Return 'a

section \<open>The source functions\<close>

definition resolve_mmap :: "state \<Rightarrow> state outcome" where
  "resolve_mmap s =
     (if real_mmap s = nullptr then
        (let (p, w) = dlsym (world s) ''mmap'' in
         if p = nullptr then Exit 1 else Return (s\<lparr>real_mmap := p, world := w\<rparr>))
      else Return s)"

definition resolve_munmap :: "state \<Rightarrow> state outcome" where
  "resolve_munmap s =
     (if real_munmap s = nullptr then
        (let (p, w) = dlsym (world s) ''munmap'' in
         if p = nullptr then Exit 1 else Return (s\<lparr>real_munmap := p, world := w\<rparr>))
      else Return s)"

text \<open>\<open>init_functions\<close>: the two guarded blocks, in the source's order.\<close>

definition init_functions :: "state \<Rightarrow> state outcome" where
  "init_functions s =
     (case resolve_mmap s of
        Exit c \<Rightarrow> Exit c
      | Return s1 \<Rightarrow> resolve_munmap s1)"

definition is_hugetlbfs_fd :: "os \<Rightarrow> int \<Rightarrow> bool" where
  "is_hugetlbfs_fd w fd =
     (case fstatfs w fd of
        Some t \<Rightarrow> t = HUGETLBFS_MAGIC
      | None \<Rightarrow> False)"

definition track_allocation :: "state \<Rightarrow> ptr \<Rightarrow> size_t \<Rightarrow> state" where
  "track_allocation s a sz = s\<lparr>allocations := \<lparr>addr = a, size' = sz\<rparr> # allocations s\<rparr>"

text \<open>
  The loop of \<open>untrack_allocation\<close>: the first node with the address is unlinked and
  its size returned; 0 when the chain holds no such node.
\<close>

fun untrack_loop :: "ptr \<Rightarrow> HugePageAllocation list \<Rightarrow> size_t \<times> HugePageAllocation list" where
  "untrack_loop a [] = (0, [])"
| "untrack_loop a (node # rest) =
     (if addr node = a then (size' node, rest)
      else (let (sz, rest') = untrack_loop a rest in (sz, node # rest')))"

definition untrack_allocation :: "state \<Rightarrow> ptr \<Rightarrow> size_t \<times> state" where
  "untrack_allocation s a =
     (let (sz, rest) = untrack_loop a (allocations s) in (sz, s\<lparr>allocations := rest\<rparr>))"

text \<open>
  The three ways the population of the region ends in failure (the source tells them
  apart by their diagnostics only), and success.
\<close>

datatype copy_result = Seek_failed | Read_failed | Unexpected_EOF | Loaded

text \<open>
  The chunked read loop. \<open>total_read\<close> is an \<open>ssize_t\<close>; it stays below the signed
  reading of \<open>length\<close>, so its additions do not overflow. The subtraction
  \<open>length - total_read\<close> is done in \<open>size_t\<close>.
\<close>

function copy_loop :: "int \<Rightarrow> ptr \<Rightarrow> size_t \<Rightarrow> int \<Rightarrow> os \<Rightarrow> copy_result \<times> os" where
  "copy_loop fd huge_mem len total_read w =
     (if total_read < sint len then
        (let to_read = (if len - word_of_int total_read < chunk_size
                        then len - word_of_int total_read else chunk_size);
             r = read w fd huge_mem total_read to_read
         in if fst r \<le> 0
            then (if fst r < 0 then Read_failed else Unexpected_EOF, snd r)
            else copy_loop fd huge_mem len (total_read + fst r) (snd r))
      else (Loaded, w))"
  by pat_completeness auto
termination
  by (relation "measure (\<lambda>(fd, huge_mem, len, total_read, w). nat (sint len - total_read))") auto

declare copy_loop.simps [simp del]

text \<open>
  The anonymous allocation: huge pages first, plain anonymous memory when that fails.
\<close>

definition anon_alloc :: "os \<Rightarrow> size_t \<Rightarrow> ptr \<times> os" where
  "anon_alloc w len =
     (let (huge_mem, w1) = libc_mmap w nullptr len (PROT_READ OR PROT_WRITE)
                             (MAP_PRIVATE OR MAP_ANONYMOUS OR MAP_HUGETLB) (- 1) 0 in
      if huge_mem = MAP_FAILED
      then libc_mmap w1 nullptr len (PROT_READ OR PROT_WRITE)
             (MAP_PRIVATE OR MAP_ANONYMOUS) (- 1) 0
      else (huge_mem, w1))"

text \<open>Rewinding the descriptor, then the read loop from \<open>total_read = 0\<close>.\<close>

definition populate :: "os \<Rightarrow> int \<Rightarrow> ptr \<Rightarrow> size_t \<Rightarrow> copy_result \<times> os" where
  "populate w fd huge_mem len =
     (let (sk, w1) = lseek w fd 0 in
      if sk \<noteq> 0 then (Seek_failed, w1) else copy_loop fd huge_mem len 0 w1)"

text \<open>
  The body of \<open>mmap\<close> under \<open>if (offset == 0 && length == (size_t)st.st_size)\<close>.
\<close>

definition substitute :: "state \<Rightarrow> size_t \<Rightarrow> cint \<Rightarrow> int \<Rightarrow> ptr \<times> state" where
  "substitute s len prot fd =
     (let (huge_mem, w1) = anon_alloc (world s) len in
      if huge_mem = MAP_FAILED then (MAP_FAILED, s\<lparr>world := w1\<rparr>)
      else
        (let (res, w2) = populate w1 fd huge_mem len in
         if res \<noteq> Loaded
         then (MAP_FAILED, s\<lparr>world := snd (libc_munmap w2 huge_mem len)\<rparr>)
         else
           (let w3 = (if prot AND PROT_WRITE = 0
                      then snd (mprotect w2 huge_mem len prot) else w2)
            in (huge_mem, track_allocation (s\<lparr>world := w3\<rparr>) huge_mem len))))"

text \<open>\<open>return real_mmap(addr, length, prot, flags, fd, offset);\<close>\<close>

definition delegate :: "state \<Rightarrow> ptr \<Rightarrow> size_t \<Rightarrow> cint \<Rightarrow> cint \<Rightarrow> int \<Rightarrow> int \<Rightarrow> ptr \<times> state" where
  "delegate s a len prot flags fd off =
     (let (p, w) = libc_mmap (world s) a len prot flags fd off in (p, s\<lparr>world := w\<rparr>))"

text \<open>The intercepted \<open>mmap\<close>.\<close>

definition mmap :: "state \<Rightarrow> ptr \<Rightarrow> size_t \<Rightarrow> cint \<Rightarrow> cint \<Rightarrow> int \<Rightarrow> int \<Rightarrow> (ptr \<times> state) outcome" where
  "mmap s a len prot flags fd off =
     (case init_functions s of
        Exit c \<Rightarrow> Exit c
      | Return s1 \<Rightarrow>
          if 0 \<le> fd \<and> is_hugetlbfs_fd (world s1) fd then
            (case fstat (world s1) fd of
               None \<Rightarrow> Return (delegate s1 a len prot flags fd off)
             | Some st_size \<Rightarrow>
                 if off = 0 \<and> len = word_of_int st_size
                 then Return (substitute s1 len prot fd)
                 else Return (delegate s1 a len prot flags fd off))
          else Return (delegate s1 a len prot flags fd off))"

text \<open>The intercepted \<open>munmap\<close>.\<close>

definition munmap :: "state \<Rightarrow> ptr \<Rightarrow> size_t \<Rightarrow> (int \<times> state) outcome" where
  "munmap s a len =
     (case init_functions s of
        Exit c \<Rightarrow> Exit c
      | Return s1 \<Rightarrow>
          (let (tracked_size, s2) = untrack_allocation s1 a in
           if 0 < tracked_size
           then (let (rc, w) = libc_munmap (world s2) a tracked_size
                 in Return (rc, s2\<lparr>world := w\<rparr>))
           else (let (rc, w) = libc_munmap (world s2) a len
                 in Return (rc, s2\<lparr>world := w\<rparr>))))"

text \<open>The constructor.\<close>

definition init :: "state \<Rightarrow> state outcome" where
  "init s = init_functions s"

text \<open>The destructor: unlink and free the head until the chain is empty.\<close>

function cleanup :: "state \<Rightarrow> state" where
  "cleanup s =
     (case allocations s of
        [] \<Rightarrow> s
      | node # next \<Rightarrow> cleanup (s\<lparr>allocations := next\<rparr>))"
  by pat_completeness auto
termination
  by (relation "measure (\<lambda>s. length (allocations s))") auto

declare cleanup.simps [simp del]

section \<open>Notions of the specification\<close>

text \<open>
  The activation preconditions of the Substitution Engine as the specification lists
  them: a non-negative descriptor, membership in the special filesystem, offset zero,
  and a length equal to the size the size query reports.
\<close>

definition activation :: "os \<Rightarrow> int \<Rightarrow> int \<Rightarrow> size_t \<Rightarrow> bool" where
  "activation w fd off len =
     (0 \<le> fd \<and> fstatfs w fd = Some HUGETLBFS_MAGIC \<and> off = 0 \<and>
      (case fstat w fd of None \<Rightarrow> False | Some sz \<Rightarrow> len = word_of_int sz))"

text \<open>Every record of the registry has a non-zero size.\<close>

definition sizes_nonzero :: "HugePageAllocation list \<Rightarrow> bool" where
  "sizes_nonzero reg = list_all (\<lambda>r. size' r \<noteq> 0) reg"

text \<open>The state of a freshly loaded library: nothing resolved, nothing tracked.\<close>

definition fresh :: "os \<Rightarrow> state" where
  "fresh w = \<lparr>real_mmap = nullptr, real_munmap = nullptr, allocations = [], world = w\<rparr>"

text \<open>
  The states a process can be in: the library is loaded into some operating-system
  state with nothing resolved and nothing tracked; between two calls of the wrapper the
  rest of the process may change the operating-system state in any way; and the
  constructor, \<open>mmap\<close>, \<open>munmap\<close> and the destructor lead from one state to the next.
\<close>

inductive reachable :: "state \<Rightarrow> bool" where
  start: "reachable (fresh w)"
| env: "reachable s \<Longrightarrow> reachable (s\<lparr>world := w\<rparr>)"
| loaded: "reachable s \<Longrightarrow> init s = Return s' \<Longrightarrow> reachable s'"
| mapped: "reachable s \<Longrightarrow> mmap s a len prot flags fd off = Return (p, s') \<Longrightarrow> reachable s'"
| unmapped: "reachable s \<Longrightarrow> munmap s a len = Return (rc, s') \<Longrightarrow> reachable s'"
| unloaded: "reachable s \<Longrightarrow> reachable (cleanup s)"

section \<open>An example process\<close>

text \<open>
  Descriptor 3 is a four-byte file \<open>abcd\<close> on the huge-page filesystem, its position
  left at 2 by an earlier reader; huge pages are 2 MiB. The scripts, the file's ability
  to seek and its ability to be sized vary between the examples.
\<close>

definition demo_file :: "read_outcome list \<Rightarrow> bool \<Rightarrow> bool \<Rightarrow> open_file" where
  "demo_file sc sk st =
     \<lparr>f_type = Some HUGETLBFS_MAGIC, stat_ok = st, content = [97, 98, 99, 100], pos = 2,
      seekable = sk, reads = sc\<rparr>"

definition demo_symbols :: "string \<Rightarrow> ptr" where
  "demo_symbols name =
     (if name = ''mmap'' then 0x7000 else if name = ''munmap'' then 0x7100 else 0)"

definition demo_os :: "ptr option list \<Rightarrow> bool list \<Rightarrow> open_file \<Rightarrow> os" where
  "demo_os ms ps f =
     \<lparr>symbols = demo_symbols, files = [3 \<mapsto> f], mem = Map.empty,
      mmap_script = ms, mprotect_script = ps, huge_page_size = 2097152, calls = []\<rparr>"

definition demo_state :: "HugePageAllocation list \<Rightarrow> os \<Rightarrow> state" where
  "demo_state reg w = \<lparr>real_mmap = 0x7000, real_munmap = 0x7100, allocations = reg, world = w\<rparr>"

text \<open>
  The state after the fresh process has mapped the whole file read-only, no huge page
  being available.
\<close>

definition demo_mapped :: state where
  "demo_mapped =
     (case mmap (fresh (demo_os [None, Some 0x1000] [] (demo_file [] True True)))
             nullptr 4 PROT_READ MAP_PRIVATE 3 0 of
        Return (p, s) \<Rightarrow> s
      | Exit c \<Rightarrow> fresh (demo_os [None, Some 0x1000] [] (demo_file [] True True)))"


section \<open>Auxiliary notions for the proofs\<close>

text \<open>The two anonymous requests the Substitution Engine can pass to the real \<open>mmap\<close>.\<close>

definition huge_request :: "size_t \<Rightarrow> call" where
  "huge_request len = Real_mmap nullptr len (PROT_READ OR PROT_WRITE)
      (MAP_PRIVATE OR MAP_ANONYMOUS OR MAP_HUGETLB) (- 1) 0"

definition plain_request :: "size_t \<Rightarrow> call" where
  "plain_request len = Real_mmap nullptr len (PROT_READ OR PROT_WRITE)
      (MAP_PRIVATE OR MAP_ANONYMOUS) (- 1) 0"

text \<open>
  The invariant of the read loop when the file holds exactly \<open>length\<close> bytes \<open>cs\<close> and
  \<open>length\<close> fits the signed type: \<open>total_read\<close> bytes have been read, the file's position
  is \<open>total_read\<close>, and the region agrees with the file on its first \<open>total_read\<close> bytes.
\<close>

definition copy_inv :: "int \<Rightarrow> ptr \<Rightarrow> size_t \<Rightarrow> byte list \<Rightarrow> int \<Rightarrow> os \<Rightarrow> bool" where
  "copy_inv fd hm len cs t w =
     (0 \<le> t \<and> nat t \<le> unat len \<and> length cs = unat len \<and> sint len = uint len \<and>
      (case files w fd of
         None \<Rightarrow> False
       | Some f \<Rightarrow> content f = cs \<and> pos f = nat t) \<and>
      (case mem w hm of
         None \<Rightarrow> False
       | Some r \<Rightarrow> length (r_bytes r) = unat len \<and> take (nat t) (r_bytes r) = take (nat t) cs))"

section \<open>Evaluating the example process\<close>

lemmas demo_defs = demo_file_def demo_symbols_def demo_os_def demo_state_def fresh_def
  nullptr_def MAP_FAILED_def PROT_READ_def PROT_WRITE_def MAP_PRIVATE_def MAP_ANONYMOUS_def
  MAP_HUGETLB_def HUGETLBFS_MAGIC_def

lemmas run_defs = init_functions_def resolve_mmap_def resolve_munmap_def dlsym_def
  mmap_def munmap_def is_hugetlbfs_fd_def fstatfs_def fstat_def delegate_def substitute_def
  anon_alloc_def populate_def lseek_def read_def read_count_def store_def libc_mmap_def
  libc_munmap_def mprotect_def initial_bytes_def track_allocation_def untrack_allocation_def
  activation_def sizes_nonzero_def chunk_size_def huge_request_def plain_request_def Let_def

section \<open>The Symbol Resolver\<close>

lemma resolve_mmap_cases:
  "resolve_mmap s =
     (if real_mmap s \<noteq> nullptr then Return s
      else if symbols (world s) ''mmap'' = nullptr then Exit 1
      else Return (s\<lparr>real_mmap := symbols (world s) ''mmap'',
                      world := (world s)\<lparr>calls := calls (world s) @ [Dlsym ''mmap'']\<rparr>\<rparr>))"
  by (simp add: resolve_mmap_def dlsym_def)

lemma resolve_munmap_cases:
  "resolve_munmap s =
     (if real_munmap s \<noteq> nullptr then Return s
      else if symbols (world s) ''munmap'' = nullptr then Exit 1
      else Return (s\<lparr>real_munmap := symbols (world s) ''munmap'',
                      world := (world s)\<lparr>calls := calls (world s) @ [Dlsym ''munmap'']\<rparr>\<rparr>))"
  by (simp add: resolve_munmap_def dlsym_def)

lemma init_functions_bound:
  "real_mmap s \<noteq> nullptr \<Longrightarrow> real_munmap s \<noteq> nullptr \<Longrightarrow> init_functions s = Return s"
  by (simp add: init_functions_def resolve_mmap_cases resolve_munmap_cases)

lemma init_functions_Return:
  assumes "init_functions s = Return s'"
  shows "real_mmap s' = (if real_mmap s = nullptr then symbols (world s) ''mmap'' else real_mmap s)"
    and "real_munmap s' = (if real_munmap s = nullptr then symbols (world s) ''munmap'' else real_munmap s)"
    and "real_mmap s' \<noteq> nullptr" and "real_munmap s' \<noteq> nullptr"
    and "allocations s' = allocations s"
    and "calls (world s') = calls (world s)
           @ (if real_mmap s = nullptr then [Dlsym ''mmap''] else [])
           @ (if real_munmap s = nullptr then [Dlsym ''munmap''] else [])"
    and "world s' = (world s)\<lparr>calls := calls (world s')\<rparr>"
  using assms
  by (auto simp: init_functions_def resolve_mmap_cases resolve_munmap_cases split: if_splits)

lemma init_functions_Exit:
  "real_mmap s = nullptr \<and> symbols (world s) ''mmap'' = nullptr \<or>
   real_munmap s = nullptr \<and> symbols (world s) ''munmap'' = nullptr \<Longrightarrow> init_functions s = Exit 1"
  by (auto simp: init_functions_def resolve_mmap_cases resolve_munmap_cases)

text \<open>
  Claim C7. The Bound Primitive Pair is written once. With both handles bound,
  \<open>init_functions\<close> returns the state as it is: no lookup is made and nothing is
  assigned. Whenever it returns, both handles are bound, a handle that was bound before
  the call keeps its value, the lookups made are exactly those of the handles that were
  null, and a further call changes nothing. When a handle is null and its symbol cannot
  be found, the process exits with status 1.
\<close>

theorem init_functions_once:
  "(real_mmap s \<noteq> nullptr \<and> real_munmap s \<noteq> nullptr \<longrightarrow> init_functions s = Return s) \<and>
   (\<forall>s'. init_functions s = Return s' \<longrightarrow>
      real_mmap s' \<noteq> nullptr \<and> real_munmap s' \<noteq> nullptr \<and>
      (real_mmap s \<noteq> nullptr \<longrightarrow> real_mmap s' = real_mmap s) \<and>
      (real_munmap s \<noteq> nullptr \<longrightarrow> real_munmap s' = real_munmap s) \<and>
      calls (world s') = calls (world s)
         @ (if real_mmap s = nullptr then [Dlsym ''mmap''] else [])
         @ (if real_munmap s = nullptr then [Dlsym ''munmap''] else []) \<and>
      init_functions s' = Return s') \<and>
   ((real_mmap s = nullptr \<and> symbols (world s) ''mmap'' = nullptr \<or>
     real_munmap s = nullptr \<and> symbols (world s) ''munmap'' = nullptr) \<longrightarrow>
      init_functions s = Exit 1)"
proof (intro conjI allI impI)
  show "init_functions s = Return s" if "real_mmap s \<noteq> nullptr \<and> real_munmap s \<noteq> nullptr"
    using that by (simp add: init_functions_bound)
next
  fix s' assume r: "init_functions s = Return s'"
  show "real_mmap s' \<noteq> nullptr" "real_munmap s' \<noteq> nullptr"
    using init_functions_Return(3,4)[OF r] by simp_all
  then show "init_functions s' = Return s'" by (rule init_functions_bound)
  show "real_mmap s' = real_mmap s" if "real_mmap s \<noteq> nullptr"
    using init_functions_Return(1)[OF r] that by simp
  show "real_munmap s' = real_munmap s" if "real_munmap s \<noteq> nullptr"
    using init_functions_Return(2)[OF r] that by simp
  show "calls (world s') = calls (world s)
         @ (if real_mmap s = nullptr then [Dlsym ''mmap''] else [])
         @ (if real_munmap s = nullptr then [Dlsym ''munmap''] else [])"
    by (rule init_functions_Return(6)[OF r])
next
  assume "real_mmap s = nullptr \<and> symbols (world s) ''mmap'' = nullptr \<or>
     real_munmap s = nullptr \<and> symbols (world s) ''munmap'' = nullptr"
  then show "init_functions s = Exit 1" by (rule init_functions_Exit)
qed

text \<open>
  The example process: with both handles bound nothing happens; from the fresh state both
  symbols are looked up once and a second call is the identity; without a \<open>munmap\<close>
  symbol the process exits.
\<close>

theorem init_functions_once_witness:
  "real_mmap (demo_state [] (demo_os [] [] (demo_file [] True True))) \<noteq> nullptr \<and>
   real_munmap (demo_state [] (demo_os [] [] (demo_file [] True True))) \<noteq> nullptr \<and>
   init_functions (demo_state [] (demo_os [] [] (demo_file [] True True))) =
     Return (demo_state [] (demo_os [] [] (demo_file [] True True))) \<and>
   init_functions (fresh (demo_os [] [] (demo_file [] True True))) =
     Return (demo_state [] ((demo_os [] [] (demo_file [] True True))
                              \<lparr>calls := [Dlsym ''mmap'', Dlsym ''munmap'']\<rparr>)) \<and>
   init_functions (demo_state [] ((demo_os [] [] (demo_file [] True True))
                              \<lparr>calls := [Dlsym ''mmap'', Dlsym ''munmap'']\<rparr>)) =
     Return (demo_state [] ((demo_os [] [] (demo_file [] True True))
                              \<lparr>calls := [Dlsym ''mmap'', Dlsym ''munmap'']\<rparr>)) \<and>
   real_munmap (fresh ((demo_os [] [] (demo_file [] True True))\<lparr>symbols := (\<lambda>n. if n = ''mmap'' then 0x7000 else 0)\<rparr>)) = nullptr \<and>
   symbols (world (fresh ((demo_os [] [] (demo_file [] True True))\<lparr>symbols := (\<lambda>n. if n = ''mmap'' then 0x7000 else 0)\<rparr>))) ''munmap'' = nullptr \<and>
   init_functions (fresh ((demo_os [] [] (demo_file [] True True))\<lparr>symbols := (\<lambda>n. if n = ''mmap'' then 0x7000 else 0)\<rparr>)) = Exit 1"
  using init_functions_once[of "demo_state [] (demo_os [] [] (demo_file [] True True))"]
    init_functions_once[of "fresh (demo_os [] [] (demo_file [] True True))"]
    init_functions_once[of "fresh ((demo_os [] [] (demo_file [] True True))\<lparr>symbols := (\<lambda>n. if n = ''mmap'' then 0x7000 else 0)\<rparr>)"]
  by (simp add: demo_defs init_functions_def resolve_mmap_def resolve_munmap_def dlsym_def)

section \<open>The Allocation Registry\<close>

lemma cleanup_drains_aux: "allocations s = reg \<Longrightarrow> cleanup s = s\<lparr>allocations := []\<rparr>"
proof (induction reg arbitrary: s)
  case Nil
  then show ?case by (subst cleanup.simps) simp
next
  case (Cons node rest)
  have "cleanup s = cleanup (s\<lparr>allocations := rest\<rparr>)"
    using Cons.prems by (subst cleanup.simps) simp
  also have "\<dots> = s\<lparr>allocations := rest\<rparr>\<lparr>allocations := []\<rparr>"
    by (rule Cons.IH) simp
  finally show ?case by simp
qed

text \<open>
  Claim C10. The destructor leaves the registry empty and changes nothing else: the
  handles, the operating-system state, its memory map and its log of calls are the same,
  so no region is unmapped.
\<close>

theorem cleanup_drains:
  "cleanup s = s\<lparr>allocations := []\<rparr> \<and>
   allocations (cleanup s) = [] \<and>
   world (cleanup s) = world s \<and>
   calls (world (cleanup s)) = calls (world s) \<and>
   mem (world (cleanup s)) = mem (world s) \<and>
   real_mmap (cleanup s) = real_mmap s \<and> real_munmap (cleanup s) = real_munmap s"
  by (simp add: cleanup_drains_aux)

lemma untrack_loop_find:
  "untrack_loop a reg =
     (case find (\<lambda>r. addr r = a) reg of
        None \<Rightarrow> (0, reg)
      | Some r \<Rightarrow> (size' r, remove1 r reg))"
proof (induction reg)
  case Nil
  then show ?case by simp
next
  case (Cons node rest)
  show ?case
  proof (cases "addr node = a")
    case True
    then show ?thesis by simp
  next
    case False
    show ?thesis
    proof (cases "find (\<lambda>r. addr r = a) rest")
      case None
      with False Cons.IH show ?thesis by simp
    next
      case (Some r)
      then have "addr r = a" by (auto simp: find_Some_iff)
      with False have "node \<noteq> r" by auto
      with False Some Cons.IH show ?thesis by simp
    qed
  qed
qed

lemma sizes_nonzero_find:
  "sizes_nonzero reg \<Longrightarrow> find P reg = Some r \<Longrightarrow> size' r \<noteq> 0"
  by (auto simp: sizes_nonzero_def list_all_iff find_Some_iff)

lemma libc_munmap_calls: "calls (snd (libc_munmap w a len)) = calls w @ [Real_munmap a len]"
  by (simp add: libc_munmap_def Let_def split: option.splits)

lemma munmap_by_registry:
  assumes "init_functions s = Return s1" and "sizes_nonzero (allocations s)"
  shows "\<exists>rc s'. munmap s a len = Return (rc, s') \<and>
     (case find (\<lambda>r. addr r = a) (allocations s) of
        Some r \<Rightarrow>
          (rc, world s') = libc_munmap (world s1) a (size' r) \<and>
          calls (world s') = calls (world s1) @ [Real_munmap a (size' r)] \<and>
          allocations s' = remove1 r (allocations s)
      | None \<Rightarrow>
          (rc, world s') = libc_munmap (world s1) a len \<and>
          calls (world s') = calls (world s1) @ [Real_munmap a len] \<and>
          allocations s' = allocations s)"
proof (cases "find (\<lambda>r. addr r = a) (allocations s)")
  case None
  then show ?thesis
    using assms(1) init_functions_Return(5)[OF assms(1)] libc_munmap_calls[of "world s1" a len]
    by (auto simp: munmap_def untrack_allocation_def untrack_loop_find
             split: option.splits prod.splits)
next
  case (Some r)
  then have "0 < size' r"
    using sizes_nonzero_find[OF assms(2) Some] by (simp add: word_greater_zero_iff)
  with Some show ?thesis
    using assms(1) init_functions_Return(5)[OF assms(1)]
      libc_munmap_calls[of "world s1" a "size' r"]
    by (auto simp: munmap_def untrack_allocation_def untrack_loop_find
             split: option.splits prod.splits)
qed

section \<open>Requests that are not intercepted\<close>

lemma init_functions_queries:
  assumes "init_functions s = Return s1"
  shows "fstatfs (world s1) fd = fstatfs (world s) fd"
    and "fstat (world s1) fd = fstat (world s) fd"
    and "is_hugetlbfs_fd (world s1) fd = is_hugetlbfs_fd (world s) fd"
    and "activation (world s1) fd off len = activation (world s) fd off len"
proof -
  have "files (world s1) = files (world s)"
    by (subst init_functions_Return(7)[OF assms]) simp
  then show "fstatfs (world s1) fd = fstatfs (world s) fd"
    and "fstat (world s1) fd = fstat (world s) fd"
    by (simp_all add: fstatfs_def fstat_def)
  then show "is_hugetlbfs_fd (world s1) fd = is_hugetlbfs_fd (world s) fd"
    and "activation (world s1) fd off len = activation (world s) fd off len"
    by (simp_all add: is_hugetlbfs_fd_def activation_def)
qed

lemma mmap_cases:
  assumes "init_functions s = Return s1"
  shows "mmap s a len prot flags fd off =
     (if activation (world s) fd off len then Return (substitute s1 len prot fd)
      else Return (delegate s1 a len prot flags fd off))"
  using assms init_functions_queries[OF assms]
  by (auto simp: mmap_def activation_def is_hugetlbfs_fd_def split: option.splits)

lemma libc_mmap_calls:
  "calls (snd (libc_mmap w a len prot flags fd off)) = calls w @ [Real_mmap a len prot flags fd off]"
  by (simp add: libc_mmap_def Let_def split: list.splits option.splits)

text \<open>
  Claim C3. When the descriptor is negative, or the filesystem query fails or reports
  another type, or the size query fails, or the offset is not zero, or the length differs
  from the file's size, \<open>mmap\<close> makes exactly one call of the real \<open>mmap\<close>, with the
  caller's own arguments, returns its result, and leaves the registry as it is.
\<close>

theorem mmap_delegates_without_activation:
  assumes "init_functions s = Return s1"
    and "fd < 0 \<or> fstatfs (world s) fd = None \<or>
         (\<exists>t. fstatfs (world s) fd = Some t \<and> t \<noteq> HUGETLBFS_MAGIC) \<or>
         fstat (world s) fd = None \<or> off \<noteq> 0 \<or>
         (\<exists>sz. fstat (world s) fd = Some sz \<and> len \<noteq> word_of_int sz)"
  shows "\<exists>p s'. mmap s a len prot flags fd off = Return (p, s') \<and>
     (p, world s') = libc_mmap (world s1) a len prot flags fd off \<and>
     calls (world s') = calls (world s1) @ [Real_mmap a len prot flags fd off] \<and>
     allocations s' = allocations s \<and>
     real_mmap s' = real_mmap s1 \<and> real_munmap s' = real_munmap s1"
proof -
  have "\<not> activation (world s) fd off len"
    using assms(2) by (auto simp: activation_def)
  then have "mmap s a len prot flags fd off = Return (delegate s1 a len prot flags fd off)"
    by (simp add: mmap_cases[OF assms(1)])
  then show ?thesis
    using init_functions_Return(5)[OF assms(1)]
      libc_mmap_calls[of "world s1" a len prot flags fd off]
    by (auto simp: delegate_def split: prod.splits)
qed

text \<open>
  Four requests that are delegated: eight bytes of the four-byte file, the whole file
  when its size cannot be queried, the file from offset 4096, and an anonymous request
  with descriptor \<open>-1\<close>.
\<close>

theorem mmap_delegates_without_activation_witness:
  "init_functions (demo_state [] (demo_os [Some 0x1000] [] (demo_file [] True True))) =
     Return (demo_state [] (demo_os [Some 0x1000] [] (demo_file [] True True))) \<and>
   fstat (demo_os [Some 0x1000] [] (demo_file [] True True)) 3 = Some 4 \<and>
   (8 :: size_t) \<noteq> word_of_int 4 \<and>
   mmap (demo_state [] (demo_os [Some 0x1000] [] (demo_file [] True True)))
        nullptr 8 PROT_READ MAP_PRIVATE 3 0 =
     Return (0x1000, demo_state []
       ((demo_os [] [] (demo_file [] True True))
          \<lparr>mem := [0x1000 \<mapsto> \<lparr>r_prot = PROT_READ, r_flags = MAP_PRIVATE,
                                r_bytes = [97, 98, 99, 100] @ replicate 4 0\<rparr>],
            calls := [Real_mmap nullptr 8 PROT_READ MAP_PRIVATE 3 0]\<rparr>)) \<and>
   fstat (demo_os [Some 0x1000] [] (demo_file [] True False)) 3 = None \<and>
   (\<exists>s'. mmap (demo_state [] (demo_os [Some 0x1000] [] (demo_file [] True False)))
             nullptr 4 PROT_READ MAP_PRIVATE 3 0 = Return (0x1000, s') \<and>
         calls (world s') = [Real_mmap nullptr 4 PROT_READ MAP_PRIVATE 3 0] \<and>
         allocations s' = []) \<and>
   (\<exists>s'. mmap (demo_state [] (demo_os [Some 0x1000] [] (demo_file [] True True)))
             nullptr 4 PROT_READ MAP_PRIVATE 3 4096 = Return (0x1000, s') \<and>
         calls (world s') = [Real_mmap nullptr 4 PROT_READ MAP_PRIVATE 3 4096] \<and>
         allocations s' = []) \<and>
   (\<exists>s'. mmap (demo_state [] (demo_os [Some 0x1000] [] (demo_file [] True True)))
             nullptr 4 PROT_READ (MAP_PRIVATE OR MAP_ANONYMOUS) (- 1) 0 = Return (0x1000, s') \<and>
         calls (world s') = [Real_mmap nullptr 4 PROT_READ (MAP_PRIVATE OR MAP_ANONYMOUS) (- 1) 0] \<and>
         allocations s' = [])"
  using mmap_delegates_without_activation[of
      "demo_state [] (demo_os [Some 0x1000] [] (demo_file [] True True))"
      "demo_state [] (demo_os [Some 0x1000] [] (demo_file [] True True))"
      3 0 8 nullptr PROT_READ MAP_PRIVATE]
    mmap_delegates_without_activation[of
      "demo_state [] (demo_os [Some 0x1000] [] (demo_file [] True False))"
      "demo_state [] (demo_os [Some 0x1000] [] (demo_file [] True False))"
      3 0 4 nullptr PROT_READ MAP_PRIVATE]
    mmap_delegates_without_activation[of
      "demo_state [] (demo_os [Some 0x1000] [] (demo_file [] True True))"
      "demo_state [] (demo_os [Some 0x1000] [] (demo_file [] True True))"
      3 4096 4 nullptr PROT_READ MAP_PRIVATE]
    mmap_delegates_without_activation[of
      "demo_state [] (demo_os [Some 0x1000] [] (demo_file [] True True))"
      "demo_state [] (demo_os [Some 0x1000] [] (demo_file [] True True))"
      "- 1" 0 4 nullptr PROT_READ "MAP_PRIVATE OR MAP_ANONYMOUS"]
  by (simp add: demo_defs run_defs)

section \<open>Facts about the operating system\<close>

lemma anon_flags:
  "(MAP_PRIVATE OR MAP_ANONYMOUS OR MAP_HUGETLB) AND MAP_ANONYMOUS \<noteq> 0"
  "(MAP_PRIVATE OR MAP_ANONYMOUS) AND MAP_ANONYMOUS \<noteq> 0"
  by (simp_all add: MAP_PRIVATE_def MAP_ANONYMOUS_def MAP_HUGETLB_def)

lemma libc_mmap_frame:
  assumes "libc_mmap w a len prot flags fd off = (p, w')"
  shows "files w' = files w"
    and "calls w' = calls w @ [Real_mmap a len prot flags fd off]"
    and "symbols w' = symbols w" and "mprotect_script w' = mprotect_script w"
  using assms
  by (auto simp: libc_mmap_def Let_def split: list.splits option.splits if_splits)

lemma libc_mmap_failed:
  assumes "libc_mmap w a len prot flags fd off = (MAP_FAILED, w')"
  shows "mem w' = mem w"
  using assms
  by (auto simp: libc_mmap_def Let_def split: list.splits option.splits if_splits)

lemma libc_mmap_anon_success:
  assumes "libc_mmap w a len prot flags fd off = (p, w')" and "p \<noteq> MAP_FAILED"
    and "flags AND MAP_ANONYMOUS \<noteq> 0"
  shows "len \<noteq> 0" and "mem w p = None"
    and "mem w' = (mem w)(p \<mapsto> \<lparr>r_prot = prot, r_flags = flags, r_bytes = replicate (unat len) 0\<rparr>)"
  using assms
  by (auto simp: libc_mmap_def Let_def initial_bytes_def split: list.splits option.splits if_splits)

lemma anon_alloc_frame:
  assumes "anon_alloc w len = (hm, w1)"
  shows "files w1 = files w \<and> mprotect_script w1 = mprotect_script w \<and>
         (calls w1 = calls w @ [huge_request len] \<or>
          hm = MAP_FAILED \<and> mem w1 = mem w \<and> calls w1 = calls w @ [huge_request len, plain_request len] \<or>
          calls w1 = calls w @ [huge_request len, plain_request len])"
proof -
  obtain p0 w0 where h: "libc_mmap w nullptr len (PROT_READ OR PROT_WRITE)
      (MAP_PRIVATE OR MAP_ANONYMOUS OR MAP_HUGETLB) (- 1) 0 = (p0, w0)"
    by fastforce
  show ?thesis
  proof (cases "p0 = MAP_FAILED")
    case True
    with h assms have p: "libc_mmap w0 nullptr len (PROT_READ OR PROT_WRITE)
             (MAP_PRIVATE OR MAP_ANONYMOUS) (- 1) 0 = (hm, w1)"
      by (simp add: anon_alloc_def)
    show ?thesis
      using libc_mmap_frame[OF h] libc_mmap_frame[OF p]
      by (simp add: huge_request_def plain_request_def)
  next
    case False
    with h assms have e: "hm = p0" "w1 = w0" by (simp_all add: anon_alloc_def)
    show ?thesis
      using libc_mmap_frame[OF h] e by (simp add: huge_request_def)
  qed
qed

lemma anon_alloc_failed:
  assumes "anon_alloc w len = (MAP_FAILED, w1)"
  shows "mem w1 = mem w \<and> calls w1 = calls w @ [huge_request len, plain_request len]"
proof -
  obtain p0 w0 where h: "libc_mmap w nullptr len (PROT_READ OR PROT_WRITE)
      (MAP_PRIVATE OR MAP_ANONYMOUS OR MAP_HUGETLB) (- 1) 0 = (p0, w0)"
    by fastforce
  with assms have t: "p0 = MAP_FAILED"
    by (simp add: anon_alloc_def split: if_splits)
  with h assms have p: "libc_mmap w0 nullptr len (PROT_READ OR PROT_WRITE)
             (MAP_PRIVATE OR MAP_ANONYMOUS) (- 1) 0 = (MAP_FAILED, w1)"
    by (simp add: anon_alloc_def)
  show ?thesis
    using libc_mmap_frame(2)[OF h] libc_mmap_frame(2)[OF p]
      libc_mmap_failed[OF h[unfolded t]] libc_mmap_failed[OF p]
    by (simp add: huge_request_def plain_request_def)
qed

lemma anon_alloc_success:
  assumes "anon_alloc w len = (hm, w1)" and "hm \<noteq> MAP_FAILED"
  shows "len \<noteq> 0 \<and>
         (\<exists>fl. (fl = MAP_PRIVATE OR MAP_ANONYMOUS OR MAP_HUGETLB \<or> fl = MAP_PRIVATE OR MAP_ANONYMOUS) \<and>
           mem w1 hm = Some \<lparr>r_prot = PROT_READ OR PROT_WRITE, r_flags = fl,
                             r_bytes = replicate (unat len) 0\<rparr>)"
proof -
  obtain p0 w0 where h: "libc_mmap w nullptr len (PROT_READ OR PROT_WRITE)
      (MAP_PRIVATE OR MAP_ANONYMOUS OR MAP_HUGETLB) (- 1) 0 = (p0, w0)"
    by fastforce
  show ?thesis
  proof (cases "p0 = MAP_FAILED")
    case True
    with h assms have p: "libc_mmap w0 nullptr len (PROT_READ OR PROT_WRITE)
             (MAP_PRIVATE OR MAP_ANONYMOUS) (- 1) 0 = (hm, w1)"
      by (simp add: anon_alloc_def)
    show ?thesis
      using libc_mmap_anon_success[OF p assms(2) anon_flags(2)] by simp
  next
    case False
    with h assms have e: "hm = p0" "w1 = w0" by (simp_all add: anon_alloc_def)
    show ?thesis
      using libc_mmap_anon_success[OF h False anon_flags(1)] e by simp
  qed
qed

lemma lseek_frame:
  assumes "lseek w fd off = (sk, w1)"
  shows "mem w1 = mem w" and "calls w1 = calls w" and "mprotect_script w1 = mprotect_script w"
    and "sk = 0 \<Longrightarrow> files w fd = Some f \<Longrightarrow> off = 0 \<Longrightarrow> files w1 fd = Some (f\<lparr>pos := 0\<rparr>)"
  using assms by (auto simp: lseek_def split: option.splits if_splits)

lemma length_store: "off + length bs \<le> length old \<Longrightarrow> length (store old off bs) = length old"
  by (simp add: store_def)

lemma read_frame:
  assumes "read w fd base off count = (n, w')"
  shows "calls w' = calls w" and "mprotect_script w' = mprotect_script w"
    and "mem w base = Some r \<Longrightarrow>
           \<exists>r'. mem w' base = Some r' \<and> length (r_bytes r') = length (r_bytes r) \<and>
                r_prot r' = r_prot r \<and> r_flags r' = r_flags r"
  using assms
  by (auto simp: read_def Let_def length_store split: option.splits if_splits)

lemma copy_loop_frame:
  assumes "copy_loop fd hm len t w = (res, w')" and "mem w hm = Some r"
  shows "calls w' = calls w \<and> mprotect_script w' = mprotect_script w \<and>
         (\<exists>r'. mem w' hm = Some r' \<and> length (r_bytes r') = length (r_bytes r) \<and>
                r_prot r' = r_prot r \<and> r_flags r' = r_flags r)"
  using assms
proof (induction fd hm len t w arbitrary: r rule: copy_loop.induct)
  case (1 fd hm len t w)
  show ?case
  proof (cases "t < sint len")
    case False
    with "1.prems" show ?thesis by (simp add: copy_loop.simps)
  next
    case True
    define to_read where "to_read = (if len - word_of_int t < chunk_size
                        then len - word_of_int t else chunk_size)"
    obtain n w1 where rd: "read w fd hm t to_read = (n, w1)"
      by fastforce
    from read_frame[OF rd] "1.prems"(2)
    obtain r1 where f1: "calls w1 = calls w" "mprotect_script w1 = mprotect_script w"
      "mem w1 hm = Some r1" "length (r_bytes r1) = length (r_bytes r)"
      "r_prot r1 = r_prot r" "r_flags r1 = r_flags r"
      by blast
    show ?thesis
    proof (cases "n \<le> 0")
      case True
      with \<open>t < sint len\<close> rd "1.prems"(1) have "w' = w1"
        by (subst (asm) copy_loop.simps) (simp add: to_read_def Let_def)
      with f1 show ?thesis by simp
    next
      case False
      with \<open>t < sint len\<close> rd "1.prems"(1)
      have rec: "copy_loop fd hm len (t + n) w1 = (res, w')"
        by (subst (asm) copy_loop.simps) (simp add: to_read_def Let_def)
      have "calls w' = calls w1 \<and> mprotect_script w' = mprotect_script w1 \<and>
         (\<exists>r'. mem w' hm = Some r' \<and> length (r_bytes r') = length (r_bytes r1) \<and>
                r_prot r' = r_prot r1 \<and> r_flags r' = r_flags r1)"
        using "1.IH"[OF True to_read_def refl] rd False rec f1(3)
        by simp
      with f1 show ?thesis by simp
    qed
  qed
qed


lemma libc_munmap_refused:
  assumes "fst (libc_munmap w a len) \<noteq> 0"
  shows "mem (snd (libc_munmap w a len)) = mem w"
  using assms by (auto simp: libc_munmap_def Let_def split: option.splits if_splits)

lemma libc_munmap_accepted:
  assumes "mem w a = Some r" and "len \<noteq> 0"
    and "r_flags r AND MAP_HUGETLB = 0 \<or> unat len mod huge_page_size w = 0"
  shows "fst (libc_munmap w a len) = 0"
  using assms by (auto simp: libc_munmap_def Let_def)

lemma mprotect_calls: "calls (snd (mprotect w a len prot)) = calls w @ [Mprotect a len prot]"
  by (simp add: mprotect_def Let_def split: option.splits)

lemma mprotect_region:
  assumes "mem w a = Some r"
  shows "\<exists>r'. mem (snd (mprotect w a len prot)) a = Some r' \<and> r_bytes r' = r_bytes r \<and>
           r_flags r' = r_flags r \<and>
           (if fst (mprotect w a len prot) = 0 then r_prot r' = prot else r_prot r' = r_prot r)"
  using assms by (simp add: mprotect_def Let_def)

lemma read_calls: "calls (snd (read w fd base off count)) = calls w"
  by (simp add: read_def Let_def split: option.splits)

section \<open>The read loop\<close>

lemma unat_remaining:
  fixes len :: size_t
  assumes "0 \<le> t" and n: "nat t \<le> unat len"
  shows "unat (len - word_of_int t) = unat len - nat t"
proof -
  have "unat len < 2 ^ 64"
    using unsigned_less[of len, where 'a=nat] by simp
  with n have "nat t < 2 ^ 64"
    by (rule le_less_trans)
  then have u: "unat (word_of_nat (nat t) :: size_t) = nat t"
    by (simp add: unat_of_nat)
  have w: "word_of_int t = (word_of_nat (nat t) :: size_t)"
    using assms(1) by (rule word_of_int_nat)
  have "word_of_nat (nat t) \<le> len"
    using n u by (simp add: word_le_nat_alt)
  then have "unat (len - word_of_nat (nat t)) = unat len - unat (word_of_nat (nat t) :: size_t)"
    by (rule unat_sub)
  with u w show ?thesis by simp
qed

lemma unat_chunk_size: "unat chunk_size = 67108864"
  by (simp add: chunk_size_def)

lemma to_read_bounds:
  fixes len :: size_t
  assumes "0 \<le> t" and "nat t < unat len"
  defines "to_read \<equiv> (if len - word_of_int t < chunk_size then len - word_of_int t else chunk_size)"
  shows "0 < unat to_read" and "unat to_read \<le> unat len - nat t"
proof -
  have r: "unat (len - word_of_int t) = unat len - nat t"
    using assms(1,2) by (intro unat_remaining) simp_all
  show "0 < unat to_read"
    using r assms(1,2) by (auto simp: to_read_def unat_chunk_size)
  show "unat to_read \<le> unat len - nat t"
    using r by (auto simp: to_read_def word_less_nat_alt unat_chunk_size)
qed

lemma size_cast:
  assumes "n < 2 ^ 63"
  shows "unat (word_of_int (int n) :: size_t) = n"
    and "sint (word_of_int (int n) :: size_t) = uint (word_of_int (int n) :: size_t)"
proof -
  have "n < 2 ^ 64" using assms by simp
  then show u: "unat (word_of_int (int n) :: size_t) = n"
    by (simp add: unat_of_nat)
  then have "uint (word_of_int (int n) :: size_t) = int n"
    by (metis uint_nat)
  moreover have "int n < 2 ^ 63" using assms by simp
  ultimately show "sint (word_of_int (int n) :: size_t) = uint (word_of_int (int n) :: size_t)"
    by (simp add: sint_uint signed_take_bit_int_eq_self)
qed

lemma take_store: "off \<le> length old \<Longrightarrow> take (off + length bs) (store old off bs) = take off old @ bs"
  by (simp add: store_def)

lemma take_chunk: "take (off + length (take k (drop off cs))) cs = take off cs @ take k (drop off cs)"
  by (simp add: take_add min_def)

lemma read_count_le: "read_count sc count \<le> unat count"
  by (simp add: read_count_def split: list.splits read_outcome.splits)

lemma read_delivers:
  assumes "files w fd = Some f" and "mem w hm = Some r" and "0 \<le> t"
    and "\<not> (reads f \<noteq> [] \<and> hd (reads f) = Read_error)"
    and "nat t + length (take (read_count (reads f) count) (drop (pos f) (content f))) \<le> length (r_bytes r)"
  shows "read w fd hm t count =
     (int (length (take (read_count (reads f) count) (drop (pos f) (content f)))),
      w\<lparr>files := (files w)(fd \<mapsto> f\<lparr>reads := tl (reads f),
              pos := pos f + length (take (read_count (reads f) count) (drop (pos f) (content f)))\<rparr>),
        mem := (mem w)(hm \<mapsto> r\<lparr>r_bytes := store (r_bytes r) (nat t)
              (take (read_count (reads f) count) (drop (pos f) (content f)))\<rparr>)\<rparr>)"
  using assms by (simp add: read_def Let_def)

lemma copy_step:
  assumes inv: "copy_inv fd hm len cs t w" and lt: "t < sint len"
    and f: "files w fd = Some f"
    and ok: "\<not> (reads f \<noteq> [] \<and> hd (reads f) = Read_error)"
    and rd: "read w fd hm t (if len - word_of_int t < chunk_size
                              then len - word_of_int t else chunk_size) = (n, w1)"
  shows "copy_inv fd hm len cs (t + n) w1 \<and> 0 \<le> n \<and>
         (\<exists>f1. files w1 fd = Some f1 \<and> reads f1 = tl (reads f)) \<and>
         (0 < read_count (reads f) (if len - word_of_int t < chunk_size
                              then len - word_of_int t else chunk_size) \<longrightarrow> 0 < n)"
proof -
  define to_read where "to_read = (if len - word_of_int t < chunk_size
                              then len - word_of_int t else chunk_size)"
  define bs where "bs = take (read_count (reads f) to_read) (drop (pos f) (content f))"
  have m: "case mem w hm of None \<Rightarrow> False
           | Some r \<Rightarrow> length (r_bytes r) = unat len \<and> take (nat t) (r_bytes r) = take (nat t) cs"
    using inv unfolding copy_inv_def by blast
  then obtain r where r: "mem w hm = Some r"
    by (cases "mem w hm") simp_all
  have facts: "0 \<le> t" "nat t \<le> unat len" "length cs = unat len" "sint len = uint len"
      "content f = cs" "pos f = nat t" "length (r_bytes r) = unat len"
      "take (nat t) (r_bytes r) = take (nat t) cs"
    using inv unfolding copy_inv_def f r option.case by blast+
  have "t < int (unat len)" using lt facts(4) by simp
  then have tl: "nat t < unat len" using facts(1) by linarith
  have tr: "0 < unat to_read" "unat to_read \<le> unat len - nat t"
    unfolding to_read_def using to_read_bounds[OF facts(1) tl] by simp_all
  have lb: "length bs \<le> unat len - nat t"
    using tr(2) read_count_le[of "reads f" to_read] by (simp add: bs_def)
  have fit: "nat t + length bs \<le> length (r_bytes r)"
    using lb tl facts(7) by simp
  have "read w fd hm t to_read =
     (int (length bs),
      w\<lparr>files := (files w)(fd \<mapsto> f\<lparr>reads := tl (reads f), pos := pos f + length bs\<rparr>),
        mem := (mem w)(hm \<mapsto> r\<lparr>r_bytes := store (r_bytes r) (nat t) bs\<rparr>)\<rparr>)"
    unfolding bs_def using fit[unfolded bs_def] by (intro read_delivers f r facts(1) ok)
  with rd have n: "n = int (length bs)"
    and w1: "w1 = w\<lparr>files := (files w)(fd \<mapsto> f\<lparr>reads := tl (reads f), pos := pos f + length bs\<rparr>),
        mem := (mem w)(hm \<mapsto> r\<lparr>r_bytes := store (r_bytes r) (nat t) bs\<rparr>)\<rparr>"
    by (simp_all add: to_read_def)
  have nn: "nat (t + n) = nat t + length bs" using n facts(1) by simp
  have t1: "take (nat t + length bs) (store (r_bytes r) (nat t) bs) = take (nat t) (r_bytes r) @ bs"
    using facts(2,7) by (intro take_store) simp
  have t2: "take (nat t + length bs) cs = take (nat t) cs @ bs"
    unfolding bs_def facts(5,6) by (rule take_chunk)
  have "copy_inv fd hm len cs (t + n) w1"
    unfolding copy_inv_def nn
    using facts lb tl t1 t2 fit n by (simp add: w1 length_store)
  moreover have "0 \<le> n" using n by simp
  moreover have "\<exists>f1. files w1 fd = Some f1 \<and> reads f1 = tl (reads f)" by (simp add: w1)
  moreover have "0 < n" if "0 < read_count (reads f) to_read"
  proof -
    have "drop (pos f) (content f) \<noteq> []" using tl facts(3,5,6) by simp
    with that have "bs \<noteq> []" by (simp add: bs_def)
    with n show ?thesis by simp
  qed
  ultimately show ?thesis by (simp add: to_read_def)
qed

lemma read_error:
  assumes "files w fd = Some f" and "reads f \<noteq> [] \<and> hd (reads f) = Read_error"
  shows "fst (read w fd hm t count) = - 1"
  using assms by (simp add: read_def Let_def)

lemma copy_loop_unfold:
  assumes "t < sint len"
    and "read w fd hm t (if len - word_of_int t < chunk_size
                         then len - word_of_int t else chunk_size) = (n, w1)"
  shows "copy_loop fd hm len t w =
     (if n \<le> 0 then (if n < 0 then Read_failed else Unexpected_EOF, w1)
      else copy_loop fd hm len (t + n) w1)"
  using assms by (subst copy_loop.simps) (simp add: Let_def)

lemma copy_loop_exit: "\<not> t < sint len \<Longrightarrow> copy_loop fd hm len t w = (Loaded, w)"
  by (subst copy_loop.simps) simp

lemma copy_inv_done:
  assumes "copy_inv fd hm len cs t w" and "\<not> t < sint len"
  shows "\<exists>r. mem w hm = Some r \<and> r_bytes r = cs"
proof -
  have m: "case mem w hm of None \<Rightarrow> False
           | Some r \<Rightarrow> length (r_bytes r) = unat len \<and> take (nat t) (r_bytes r) = take (nat t) cs"
    using assms(1) unfolding copy_inv_def by blast
  then obtain r where r: "mem w hm = Some r"
    by (cases "mem w hm") simp_all
  have facts: "0 \<le> t" "nat t \<le> unat len" "length cs = unat len" "sint len = uint len"
      "length (r_bytes r) = unat len" "take (nat t) (r_bytes r) = take (nat t) cs"
    using assms(1) unfolding copy_inv_def r option.case by blast+
  have "int (unat len) \<le> t" using assms(2) facts(4) by simp
  then have "unat len \<le> nat t" by linarith
  with facts(2) have "nat t = unat len" by simp
  with facts(3,5,6) have "r_bytes r = cs" by simp
  with r show ?thesis by simp
qed

lemma copy_loop_correct:
  assumes "copy_loop fd hm len t w = (Loaded, w')" and "copy_inv fd hm len cs t w"
  shows "\<exists>r. mem w' hm = Some r \<and> r_bytes r = cs"
  using assms
proof (induction fd hm len t w rule: copy_loop.induct)
  case (1 fd hm len t w)
  show ?case
  proof (cases "t < sint len")
    case False
    with "1.prems"(1) have "w' = w" by (simp add: copy_loop_exit)
    with copy_inv_done[OF "1.prems"(2) False] show ?thesis by simp
  next
    case True
    obtain n w1 where rd: "read w fd hm t (if len - word_of_int t < chunk_size
                         then len - word_of_int t else chunk_size) = (n, w1)"
      by fastforce
    have u: "copy_loop fd hm len t w =
       (if n \<le> 0 then (if n < 0 then Read_failed else Unexpected_EOF, w1)
        else copy_loop fd hm len (t + n) w1)"
      by (rule copy_loop_unfold[OF True rd])
    with "1.prems"(1) have pos: "\<not> n \<le> 0" and rec: "copy_loop fd hm len (t + n) w1 = (Loaded, w')"
      by (auto split: if_splits)
    obtain f where f: "files w fd = Some f"
      using "1.prems"(2) unfolding copy_inv_def by (cases "files w fd") simp_all
    have ok: "\<not> (reads f \<noteq> [] \<and> hd (reads f) = Read_error)"
    proof
      assume "reads f \<noteq> [] \<and> hd (reads f) = Read_error"
      from read_error[OF f this, of hm t "(if len - word_of_int t < chunk_size
                         then len - word_of_int t else chunk_size)"] rd pos
      show False by simp
    qed
    have inv1: "copy_inv fd hm len cs (t + n) w1"
      using copy_step[OF "1.prems"(2) True f ok rd] by blast
    show ?thesis
      using "1.IH"[OF True refl refl] rd pos rec inv1 by simp
  qed
qed

lemma copy_loop_progress:
  assumes "copy_inv fd hm len cs t w" and "files w fd = Some f"
    and "\<forall>x \<in> set (reads f). \<exists>k. x = Read_upto k \<and> 0 < k"
  shows "fst (copy_loop fd hm len t w) = Loaded"
  using assms
proof (induction fd hm len t w arbitrary: f rule: copy_loop.induct)
  case (1 fd hm len t w)
  show ?case
  proof (cases "t < sint len")
    case False
    then show ?thesis by (simp add: copy_loop_exit)
  next
    case True
    define to_read where "to_read = (if len - word_of_int t < chunk_size
                         then len - word_of_int t else chunk_size)"
    obtain n w1 where rd: "read w fd hm t to_read = (n, w1)"
      by fastforce
    have ok: "\<not> (reads f \<noteq> [] \<and> hd (reads f) = Read_error)"
      using "1.prems"(3) by (cases "reads f") auto
    have facts: "0 \<le> t" "sint len = uint len"
      using "1.prems"(1) unfolding copy_inv_def by blast+
    have "t < int (unat len)" using True facts(2) by simp
    then have tl: "nat t < unat len" using facts(1) by linarith
    have tr: "0 < unat to_read"
      unfolding to_read_def using to_read_bounds(1)[OF facts(1) tl] by simp
    have rc: "0 < read_count (reads f) to_read"
    proof (cases "reads f")
      case Nil
      with tr show ?thesis by (simp add: read_count_def)
    next
      case (Cons x xs)
      with "1.prems"(3) obtain k where "x = Read_upto k" "0 < k" by auto
      with Cons tr show ?thesis by (simp add: read_count_def)
    qed
    from copy_step[OF "1.prems"(1) True "1.prems"(2) ok rd[unfolded to_read_def]] rc
    obtain f1 where inv1: "copy_inv fd hm len cs (t + n) w1" and n: "0 < n"
      and f1: "files w1 fd = Some f1" "reads f1 = tl (reads f)"
      unfolding to_read_def by blast
    have sc: "\<forall>x \<in> set (reads f1). \<exists>k. x = Read_upto k \<and> 0 < k"
      using "1.prems"(3) f1(2) by (cases "reads f") auto
    have "copy_loop fd hm len t w = copy_loop fd hm len (t + n) w1"
      using copy_loop_unfold[OF True rd[unfolded to_read_def]] n by simp
    moreover have "fst (copy_loop fd hm len (t + n) w1) = Loaded"
      using "1.IH"[OF True refl refl, of f1] rd[unfolded to_read_def] n inv1 f1(1) sc by simp
    ultimately show ?thesis by simp
  qed
qed

lemma copy_loop_calls: "calls (snd (copy_loop fd hm len t w)) = calls w"
proof (induction fd hm len t w rule: copy_loop.induct)
  case (1 fd hm len t w)
  show ?case
  proof (cases "t < sint len")
    case False
    then show ?thesis by (simp add: copy_loop_exit)
  next
    case True
    obtain n w1 where rd: "read w fd hm t (if len - word_of_int t < chunk_size
                         then len - word_of_int t else chunk_size) = (n, w1)"
      by fastforce
    have c1: "calls w1 = calls w"
      using read_calls[of w fd hm t "(if len - word_of_int t < chunk_size
                         then len - word_of_int t else chunk_size)"] rd by simp
    show ?thesis
    proof (cases "n \<le> 0")
      case True
      then show ?thesis using copy_loop_unfold[OF \<open>t < sint len\<close> rd] c1 by simp
    next
      case False
      then show ?thesis
        using copy_loop_unfold[OF \<open>t < sint len\<close> rd] c1 "1.IH"[OF True refl refl] rd by simp
    qed
  qed
qed

lemma copy_loop_read_failed:
  assumes "t < sint len"
    and "fst (read w fd hm t (if len - word_of_int t < chunk_size
                              then len - word_of_int t else chunk_size)) < 0"
  shows "fst (copy_loop fd hm len t w) = Read_failed"
  using assms by (subst copy_loop.simps) (simp add: Let_def)

lemma copy_loop_unexpected_eof:
  assumes "t < sint len"
    and "fst (read w fd hm t (if len - word_of_int t < chunk_size
                              then len - word_of_int t else chunk_size)) = 0"
  shows "fst (copy_loop fd hm len t w) = Unexpected_EOF"
  using assms by (subst copy_loop.simps) (simp add: Let_def)

section \<open>The stages of the Substitution Engine\<close>

lemma populate_calls: "calls (snd (populate w fd hm len)) = calls w"
proof -
  obtain sk w1 where l: "lseek w fd 0 = (sk, w1)" by fastforce
  show ?thesis
    using lseek_frame(2)[OF l] l copy_loop_calls[of fd hm len 0 w1]
    by (simp add: populate_def)
qed

lemma populate_frame:
  assumes "populate w fd hm len = (res, w2)" and "mem w hm = Some r"
  shows "calls w2 = calls w \<and>
         (\<exists>r'. mem w2 hm = Some r' \<and> length (r_bytes r') = length (r_bytes r) \<and>
                r_prot r' = r_prot r \<and> r_flags r' = r_flags r)"
proof -
  obtain sk w1 where l: "lseek w fd 0 = (sk, w1)" by fastforce
  have m1: "mem w1 hm = Some r" using lseek_frame(1)[OF l] assms(2) by simp
  show ?thesis
  proof (cases "sk = 0")
    case True
    with l assms(1) have "copy_loop fd hm len 0 w1 = (res, w2)"
      by (simp add: populate_def)
    from copy_loop_frame[OF this m1] lseek_frame(2)[OF l] show ?thesis by simp
  next
    case False
    with l assms(1) have "w2 = w1" by (simp add: populate_def)
    with m1 lseek_frame(2)[OF l] show ?thesis by simp
  qed
qed

lemma populate_seek_failed:
  assumes "fst (lseek w fd 0) \<noteq> 0"
  shows "fst (populate w fd hm len) = Seek_failed"
  using assms by (cases "lseek w fd 0") (simp add: populate_def)

lemma substitute_alloc_failed:
  assumes "anon_alloc (world s) len = (MAP_FAILED, w1)"
  shows "substitute s len prot fd = (MAP_FAILED, s\<lparr>world := w1\<rparr>)"
  using assms by (simp add: substitute_def)

lemma substitute_copy_failed:
  assumes "anon_alloc (world s) len = (hm, w1)" and "hm \<noteq> MAP_FAILED"
    and "populate w1 fd hm len = (res, w2)" and "res \<noteq> Loaded"
  shows "substitute s len prot fd = (MAP_FAILED, s\<lparr>world := snd (libc_munmap w2 hm len)\<rparr>)"
  using assms by (simp add: substitute_def)

lemma substitute_loaded:
  assumes "anon_alloc (world s) len = (hm, w1)" and "hm \<noteq> MAP_FAILED"
    and "populate w1 fd hm len = (Loaded, w2)"
  shows "substitute s len prot fd =
     (hm, s\<lparr>allocations := \<lparr>addr = hm, size' = len\<rparr> # allocations s,
            world := (if prot AND PROT_WRITE = 0 then snd (mprotect w2 hm len prot) else w2)\<rparr>)"
  using assms by (simp add: substitute_def track_allocation_def Let_def)

lemma substitute_calls:
  "\<exists>A B. calls (world (snd (substitute s len prot fd))) = calls (world s) @ huge_request len # A @ B \<and>
     (A = [] \<or> A = [plain_request len]) \<and>
     (B = [] \<or> (\<exists>h. B = [Real_munmap h len]) \<or> (\<exists>h. B = [Mprotect h len prot]))"
proof -
  obtain hm w1 where al: "anon_alloc (world s) len = (hm, w1)" by fastforce
  obtain res w2 where po: "populate w1 fd hm len = (res, w2)" by fastforce
  have c2: "calls w2 = calls w1" using populate_calls[of w1 fd hm len] po by simp
  from anon_alloc_frame[OF al]
  obtain A where A: "calls w1 = calls (world s) @ huge_request len # A" "A = [] \<or> A = [plain_request len]"
    by auto
  show ?thesis
  proof (cases "hm = MAP_FAILED")
    case True
    with al have "substitute s len prot fd = (MAP_FAILED, s\<lparr>world := w1\<rparr>)"
      by (simp add: substitute_alloc_failed)
    with A show ?thesis by auto
  next
    case False
    show ?thesis
    proof (cases "res = Loaded")
      case True
      with po have po': "populate w1 fd hm len = (Loaded, w2)" by simp
      show ?thesis
        using substitute_loaded[OF al False po', of prot] A c2
        by (auto simp: mprotect_calls)
    next
      case nl: False
      show ?thesis
        using substitute_copy_failed[OF al False po nl, of prot] A c2
        by (auto simp: libc_munmap_calls)
    qed
  qed
qed

lemma substitute_after_alloc:
  assumes al: "anon_alloc (world s) len = (hm, w1)"
  shows "\<exists>B. calls (world (snd (substitute s len prot fd))) = calls w1 @ B \<and>
           (B = [] \<or> B = [Real_munmap hm len] \<or> B = [Mprotect hm len prot])"
    and "fst (substitute s len prot fd) = MAP_FAILED \<or> fst (substitute s len prot fd) = hm"
    and "fst (substitute s len prot fd) = fst (substitute s len prot' fd)"
    and "allocations (snd (substitute s len prot fd)) = allocations (snd (substitute s len prot' fd))"
    and "allocations (snd (substitute s len prot fd)) = allocations s \<or>
         len \<noteq> 0 \<and> allocations (snd (substitute s len prot fd)) = \<lparr>addr = hm, size' = len\<rparr> # allocations s"
proof -
  obtain res w2 where po: "populate w1 fd hm len = (res, w2)" by fastforce
  have c2: "calls w2 = calls w1" using populate_calls[of w1 fd hm len] po by simp
  have "(\<exists>B. calls (world (snd (substitute s len prot fd))) = calls w1 @ B \<and>
           (B = [] \<or> B = [Real_munmap hm len] \<or> B = [Mprotect hm len prot])) \<and>
        (fst (substitute s len prot fd) = MAP_FAILED \<or> fst (substitute s len prot fd) = hm) \<and>
        fst (substitute s len prot fd) = fst (substitute s len prot' fd) \<and>
        allocations (snd (substitute s len prot fd)) = allocations (snd (substitute s len prot' fd)) \<and>
        (allocations (snd (substitute s len prot fd)) = allocations s \<or>
         len \<noteq> 0 \<and> allocations (snd (substitute s len prot fd)) = \<lparr>addr = hm, size' = len\<rparr> # allocations s)"
  proof (cases "hm = MAP_FAILED")
    case True
    with al show ?thesis by (simp add: substitute_alloc_failed)
  next
    case False
    have len0: "len \<noteq> 0" using anon_alloc_success[OF al False] by simp
    show ?thesis
    proof (cases "res = Loaded")
      case True
      with po have po': "populate w1 fd hm len = (Loaded, w2)" by simp
      show ?thesis
        using substitute_loaded[OF al False po', of prot] substitute_loaded[OF al False po', of prot']
          c2 len0
        by (simp add: mprotect_calls)
    next
      case nl: False
      show ?thesis
        using substitute_copy_failed[OF al False po nl, of prot]
          substitute_copy_failed[OF al False po nl, of prot'] c2
        by (simp add: libc_munmap_calls)
    qed
  qed
  then show "\<exists>B. calls (world (snd (substitute s len prot fd))) = calls w1 @ B \<and>
           (B = [] \<or> B = [Real_munmap hm len] \<or> B = [Mprotect hm len prot])"
    and "fst (substitute s len prot fd) = MAP_FAILED \<or> fst (substitute s len prot fd) = hm"
    and "fst (substitute s len prot fd) = fst (substitute s len prot' fd)"
    and "allocations (snd (substitute s len prot fd)) = allocations (snd (substitute s len prot' fd))"
    and "allocations (snd (substitute s len prot fd)) = allocations s \<or>
         len \<noteq> 0 \<and> allocations (snd (substitute s len prot fd)) = \<lparr>addr = hm, size' = len\<rparr> # allocations s"
    by blast+
qed

lemma activation_file:
  assumes "activation w fd off len" and "files w fd = Some f"
  shows "0 \<le> fd" and "off = 0" and "stat_ok f" and "f_type f = Some HUGETLBFS_MAGIC"
    and "len = word_of_int (int (length (content f)))"
  using assms by (auto simp: activation_def fstatfs_def fstat_def split: if_splits)

lemma lseek_seekable:
  assumes "files w fd = Some f" and "seekable f"
  shows "lseek w fd 0 = (0, w\<lparr>files := (files w)(fd \<mapsto> f\<lparr>pos := 0\<rparr>)\<rparr>)"
  using assms by (simp add: lseek_def)

lemma populate_start:
  assumes "files w1 fd = Some f" and "lseek w1 fd 0 = (0, wl)"
    and "mem w1 hm = Some r" and "r_bytes r = replicate (unat len) 0"
    and "unat len = length (content f)" and "sint len = uint len"
  shows "copy_inv fd hm len (content f) 0 wl" and "files wl fd = Some (f\<lparr>pos := 0\<rparr>)"
proof -
  show fl: "files wl fd = Some (f\<lparr>pos := 0\<rparr>)"
    using lseek_frame(4)[OF assms(2) refl assms(1) refl] .
  have "mem wl hm = Some r" using lseek_frame(1)[OF assms(2)] assms(3) by simp
  then show "copy_inv fd hm len (content f) 0 wl"
    unfolding copy_inv_def fl using assms(4,5,6) by simp
qed

lemma copy_region:
  assumes al: "anon_alloc w len = (hm, w1)" and hm: "hm \<noteq> MAP_FAILED"
    and po: "populate w1 fd hm len = (res, w2)"
  shows "\<exists>r0 r. mem w1 hm = Some r0 \<and> mem w2 hm = Some r \<and>
           r_prot r0 = PROT_READ OR PROT_WRITE \<and> r_prot r = PROT_READ OR PROT_WRITE \<and>
           (r_flags r0 = MAP_PRIVATE OR MAP_ANONYMOUS OR MAP_HUGETLB \<or>
            r_flags r0 = MAP_PRIVATE OR MAP_ANONYMOUS) \<and>
           r_flags r = r_flags r0"
proof -
  from anon_alloc_success[OF al hm] obtain r0 where
    r0: "mem w1 hm = Some r0" "r_prot r0 = PROT_READ OR PROT_WRITE"
      "r_flags r0 = MAP_PRIVATE OR MAP_ANONYMOUS OR MAP_HUGETLB \<or> r_flags r0 = MAP_PRIVATE OR MAP_ANONYMOUS"
    by auto
  from populate_frame[OF po r0(1)] obtain r where
    "mem w2 hm = Some r" "r_prot r = r_prot r0" "r_flags r = r_flags r0"
    by auto
  with r0 show ?thesis by simp
qed

lemma substitute_region:
  assumes al: "anon_alloc (world s) len = (hm, w1)"
    and ok: "fst (substitute s len prot fd) \<noteq> MAP_FAILED"
  shows "\<exists>r. mem (world (snd (substitute s len prot fd))) (fst (substitute s len prot fd)) = Some r \<and>
           (r_flags r = MAP_PRIVATE OR MAP_ANONYMOUS OR MAP_HUGETLB \<or>
            r_flags r = MAP_PRIVATE OR MAP_ANONYMOUS)"
proof -
  have hm: "hm \<noteq> MAP_FAILED"
  proof
    assume "hm = MAP_FAILED"
    with al ok show False by (simp add: substitute_alloc_failed)
  qed
  obtain res w2 where po: "populate w1 fd hm len = (res, w2)" by fastforce
  have res: "res = Loaded"
  proof (rule ccontr)
    assume "res \<noteq> Loaded"
    from substitute_copy_failed[OF al hm po this, of prot] ok show False by simp
  qed
  from copy_region[OF al hm po] obtain r where
    r: "mem w2 hm = Some r"
      "r_flags r = MAP_PRIVATE OR MAP_ANONYMOUS OR MAP_HUGETLB \<or> r_flags r = MAP_PRIVATE OR MAP_ANONYMOUS"
    by auto
  show ?thesis
  proof (cases "prot AND PROT_WRITE = 0")
    case True
    from mprotect_region[OF r(1), of len prot] r(2) True
      substitute_loaded[OF al hm po[unfolded res], of prot]
    show ?thesis by auto
  next
    case False
    with r substitute_loaded[OF al hm po[unfolded res], of prot] show ?thesis by simp
  qed
qed

section \<open>The synthesized region holds the file\<close>

text \<open>
  Claim C1. Take a whole-file request on the special filesystem (the activation
  preconditions hold) for a file whose size fits \<open>off_t\<close>. Whenever \<open>mmap\<close> returns an
  address other than \<open>MAP_FAILED\<close>, the region at that address has exactly \<open>length\<close>
  bytes, equal to the file's bytes. And short reads are progress: when the anonymous
  allocation succeeds, the descriptor can seek, and every scripted \<open>read\<close> delivers a
  positive number of bytes, however few, \<open>mmap\<close> does return such an address.
\<close>

theorem mmap_whole_file_bytes:
  assumes init: "init_functions s = Return s1"
    and f: "files (world s) fd = Some f"
    and act: "activation (world s) fd off len"
    and sz: "length (content f) < 2 ^ 63"
  shows "(\<forall>p s'. mmap s a len prot flags fd off = Return (p, s') \<and> p \<noteq> MAP_FAILED \<longrightarrow>
            (\<exists>r. mem (world s') p = Some r \<and> r_bytes r = content f \<and>
                 length (r_bytes r) = unat len)) \<and>
         (fst (anon_alloc (world s1) len) \<noteq> MAP_FAILED \<and> seekable f \<and>
          (\<forall>x \<in> set (reads f). \<exists>k. x = Read_upto k \<and> 0 < k) \<longrightarrow>
            (\<exists>p s'. mmap s a len prot flags fd off = Return (p, s') \<and> p \<noteq> MAP_FAILED))"
proof -
  have m: "mmap s a len prot flags fd off = Return (substitute s1 len prot fd)"
    using act by (simp add: mmap_cases[OF init])
  have ws1: "world s1 = (world s)\<lparr>calls := calls (world s1)\<rparr>"
    by (rule init_functions_Return(7)[OF init])
  have fs1: "files (world s1) fd = Some f"
    by (subst ws1) (simp add: f)
  obtain hm w1 where al: "anon_alloc (world s1) len = (hm, w1)" by fastforce
  have fw1: "files w1 fd = Some f"
    using anon_alloc_frame[OF al] fs1 by simp
  have len: "len = word_of_int (int (length (content f)))"
    by (rule activation_file(5)[OF act f])
  have ul: "unat len = length (content f)" and sl: "sint len = uint len"
    unfolding len using size_cast[OF sz] by simp_all
  have loaded: "\<exists>r. mem w2 hm = Some r \<and> r_bytes r = content f"
    if hm: "hm \<noteq> MAP_FAILED" and po: "populate w1 fd hm len = (Loaded, w2)" for w2
  proof -
    from anon_alloc_success[OF al hm] obtain r0 where
      r0: "mem w1 hm = Some r0" "r_bytes r0 = replicate (unat len) 0"
      by auto
    obtain sk wl where l: "lseek w1 fd 0 = (sk, wl)" by fastforce
    with po have sk: "sk = 0" and cl: "copy_loop fd hm len 0 wl = (Loaded, w2)"
      by (auto simp: populate_def split: if_splits)
    have "copy_inv fd hm len (content f) 0 wl"
      using populate_start(1)[OF fw1 l[unfolded sk] r0 ul sl] .
    from copy_loop_correct[OF cl this] show ?thesis .
  qed
  have A: "\<exists>r. mem (world s') p = Some r \<and> r_bytes r = content f \<and> length (r_bytes r) = unat len"
    if ret: "mmap s a len prot flags fd off = Return (p, s')" and p: "p \<noteq> MAP_FAILED" for p s'
  proof -
    from ret m have sub: "substitute s1 len prot fd = (p, s')" by simp
    have hm: "hm \<noteq> MAP_FAILED"
    proof
      assume "hm = MAP_FAILED"
      with al sub p show False by (simp add: substitute_alloc_failed)
    qed
    obtain res w2 where po: "populate w1 fd hm len = (res, w2)" by fastforce
    have res: "res = Loaded"
    proof (rule ccontr)
      assume "res \<noteq> Loaded"
      from substitute_copy_failed[OF al hm po this, of prot] sub p show False by simp
    qed
    from loaded[OF hm po[unfolded res]] obtain r where
      r: "mem w2 hm = Some r" "r_bytes r = content f" by auto
    from substitute_loaded[OF al hm po[unfolded res], of prot] sub
    have ph: "p = hm"
      and w: "world s' = (if prot AND PROT_WRITE = 0 then snd (mprotect w2 hm len prot) else w2)"
      by auto
    show ?thesis
    proof (cases "prot AND PROT_WRITE = 0")
      case True
      from mprotect_region[OF r(1), of len prot] r(2) True w ph ul show ?thesis by auto
    next
      case False
      with r w ph ul show ?thesis by simp
    qed
  qed
  have B: "\<exists>p s'. mmap s a len prot flags fd off = Return (p, s') \<and> p \<noteq> MAP_FAILED"
    if ok: "fst (anon_alloc (world s1) len) \<noteq> MAP_FAILED" and sk: "seekable f"
      and sc: "\<forall>x \<in> set (reads f). \<exists>k. x = Read_upto k \<and> 0 < k"
  proof -
    have hm: "hm \<noteq> MAP_FAILED" using ok al by simp
    from anon_alloc_success[OF al hm] obtain r0 where
      r0: "mem w1 hm = Some r0" "r_bytes r0 = replicate (unat len) 0"
      by auto
    define wl where "wl = w1\<lparr>files := (files w1)(fd \<mapsto> f\<lparr>pos := 0\<rparr>)\<rparr>"
    have l: "lseek w1 fd 0 = (0, wl)"
      unfolding wl_def by (rule lseek_seekable[OF fw1 sk])
    have inv: "copy_inv fd hm len (content f) 0 wl" and fl: "files wl fd = Some (f\<lparr>pos := 0\<rparr>)"
      using populate_start[OF fw1 l r0 ul sl] by simp_all
    have "fst (copy_loop fd hm len 0 wl) = Loaded"
      by (rule copy_loop_progress[OF inv fl]) (use sc in simp)
    then obtain w2 where "copy_loop fd hm len 0 wl = (Loaded, w2)"
      by (cases "copy_loop fd hm len 0 wl") simp
    with l have po: "populate w1 fd hm len = (Loaded, w2)"
      by (simp add: populate_def)
    from substitute_loaded[OF al hm po, of prot] m hm show ?thesis by simp
  qed
  from A B show ?thesis by blast
qed

text \<open>
  The four-byte file read in three pieces (one byte, two bytes, the rest): the region
  at \<open>0x1000\<close> holds \<open>abcd\<close>.
\<close>

theorem mmap_whole_file_bytes_witness:
  "init_functions (demo_state [] (demo_os [Some 0x1000] [] (demo_file [Read_upto 1, Read_upto 2] True True))) =
     Return (demo_state [] (demo_os [Some 0x1000] [] (demo_file [Read_upto 1, Read_upto 2] True True))) \<and>
   files (world (demo_state [] (demo_os [Some 0x1000] [] (demo_file [Read_upto 1, Read_upto 2] True True)))) 3 =
     Some (demo_file [Read_upto 1, Read_upto 2] True True) \<and>
   activation (world (demo_state [] (demo_os [Some 0x1000] [] (demo_file [Read_upto 1, Read_upto 2] True True)))) 3 0 4 \<and>
   length (content (demo_file [Read_upto 1, Read_upto 2] True True)) < 2 ^ 63 \<and>
   fst (anon_alloc (world (demo_state [] (demo_os [Some 0x1000] [] (demo_file [Read_upto 1, Read_upto 2] True True)))) 4) \<noteq> MAP_FAILED \<and>
   seekable (demo_file [Read_upto 1, Read_upto 2] True True) \<and>
   reads (demo_file [Read_upto 1, Read_upto 2] True True) = [Read_upto 1, Read_upto 2] \<and>
   (\<exists>s'. mmap (demo_state [] (demo_os [Some 0x1000] [] (demo_file [Read_upto 1, Read_upto 2] True True)))
              nullptr 4 PROT_READ MAP_PRIVATE 3 0 = Return (0x1000, s') \<and>
         map_option r_bytes (mem (world s') 0x1000) = Some [97, 98, 99, 100] \<and>
         allocations s' = [\<lparr>addr = 0x1000, size' = 4\<rparr>])"
  using mmap_whole_file_bytes[of
      "demo_state [] (demo_os [Some 0x1000] [] (demo_file [Read_upto 1, Read_upto 2] True True))"
      "demo_state [] (demo_os [Some 0x1000] [] (demo_file [Read_upto 1, Read_upto 2] True True))"
      3 "demo_file [Read_upto 1, Read_upto 2] True True" 0 4 nullptr PROT_READ MAP_PRIVATE]
  by (simp add: demo_defs run_defs copy_loop.simps)

section \<open>Failure paths of the Substitution Engine\<close>




text \<open>
  Claim C5. When the huge-page request fails, the engine issues the plain anonymous
  private request with the same length and read/write protection, and these two are the
  first calls \<open>mmap\<close> makes; the result is \<open>MAP_FAILED\<close> or the address the second
  request gave. When the second request fails too, \<open>mmap\<close> returns \<open>MAP_FAILED\<close> (it
  returns, the process does not exit), having made no further call and leaving the
  registry as it was.
\<close>

theorem mmap_allocation_fallback:
  assumes init: "init_functions s = Return s1"
    and act: "activation (world s) fd off len"
    and hf: "libc_mmap (world s1) nullptr len (PROT_READ OR PROT_WRITE)
               (MAP_PRIVATE OR MAP_ANONYMOUS OR MAP_HUGETLB) (- 1) 0 = (MAP_FAILED, w1)"
    and pl: "libc_mmap w1 nullptr len (PROT_READ OR PROT_WRITE)
               (MAP_PRIVATE OR MAP_ANONYMOUS) (- 1) 0 = (p2, w2)"
  shows "calls w2 = calls (world s1) @ [huge_request len, plain_request len] \<and>
         (\<exists>p s' rest. mmap s a len prot flags fd off = Return (p, s') \<and>
             calls (world s') = calls (world s1) @ [huge_request len, plain_request len] @ rest \<and>
             (p = MAP_FAILED \<or> p = p2)) \<and>
         (p2 = MAP_FAILED \<longrightarrow>
            mmap s a len prot flags fd off = Return (MAP_FAILED, s1\<lparr>world := w2\<rparr>))"
proof -
  have m: "mmap s a len prot flags fd off = Return (substitute s1 len prot fd)"
    using act by (simp add: mmap_cases[OF init])
  have al: "anon_alloc (world s1) len = (p2, w2)"
    using hf pl by (simp add: anon_alloc_def)
  have c: "calls w2 = calls (world s1) @ [huge_request len, plain_request len]"
    using libc_mmap_frame(2)[OF hf] libc_mmap_frame(2)[OF pl]
    by (simp add: huge_request_def plain_request_def)
  from substitute_after_alloc(1,2)[OF al, of prot fd]
  obtain B where B: "calls (world (snd (substitute s1 len prot fd))) = calls w2 @ B"
    and p: "fst (substitute s1 len prot fd) = MAP_FAILED \<or> fst (substitute s1 len prot fd) = p2"
    by blast
  have "\<exists>p s' rest. mmap s a len prot flags fd off = Return (p, s') \<and>
             calls (world s') = calls (world s1) @ [huge_request len, plain_request len] @ rest \<and>
             (p = MAP_FAILED \<or> p = p2)"
    using m B p c by (cases "substitute s1 len prot fd") auto
  moreover have "mmap s a len prot flags fd off = Return (MAP_FAILED, s1\<lparr>world := w2\<rparr>)"
    if "p2 = MAP_FAILED"
    using m al that by (simp add: substitute_alloc_failed)
  ultimately show ?thesis using c by blast
qed

text \<open>
  Both requests failing, and the huge-page request failing with the plain one placed at
  \<open>0x1000\<close>.
\<close>

theorem mmap_allocation_fallback_witness:
  "init_functions (demo_state [] (demo_os [None, None] [] (demo_file [] True True))) =
     Return (demo_state [] (demo_os [None, None] [] (demo_file [] True True))) \<and>
   activation (demo_os [None, None] [] (demo_file [] True True)) 3 0 4 \<and>
   fst (libc_mmap (demo_os [None, None] [] (demo_file [] True True)) nullptr 4
          (PROT_READ OR PROT_WRITE) (MAP_PRIVATE OR MAP_ANONYMOUS OR MAP_HUGETLB) (- 1) 0) = MAP_FAILED \<and>
   mmap (demo_state [] (demo_os [None, None] [] (demo_file [] True True)))
        nullptr 4 PROT_READ MAP_PRIVATE 3 0 =
     Return (MAP_FAILED, demo_state [] ((demo_os [] [] (demo_file [] True True))
                \<lparr>calls := [huge_request 4, plain_request 4]\<rparr>)) \<and>
   fst (libc_mmap (demo_os [None, Some 0x1000] [] (demo_file [] True True)) nullptr 4
          (PROT_READ OR PROT_WRITE) (MAP_PRIVATE OR MAP_ANONYMOUS OR MAP_HUGETLB) (- 1) 0) = MAP_FAILED \<and>
   (\<exists>s'. mmap (demo_state [] (demo_os [None, Some 0x1000] [] (demo_file [] True True)))
             nullptr 4 PROT_READ MAP_PRIVATE 3 0 = Return (0x1000, s') \<and>
         calls (world s') = [huge_request 4, plain_request 4, Mprotect 0x1000 4 PROT_READ] \<and>
         map_option r_flags (mem (world s') 0x1000) = Some (MAP_PRIVATE OR MAP_ANONYMOUS))"
  using mmap_allocation_fallback[where
      s = "demo_state [] (demo_os [None, None] [] (demo_file [] True True))" and
      ?s1.0 = "demo_state [] (demo_os [None, None] [] (demo_file [] True True))" and
      fd = 3 and off = 0 and len = 4 and
      ?w1.0 = "snd (libc_mmap (demo_os [None, None] [] (demo_file [] True True)) nullptr 4
          (PROT_READ OR PROT_WRITE) (MAP_PRIVATE OR MAP_ANONYMOUS OR MAP_HUGETLB) (- 1) 0)" and
      ?p2.0 = MAP_FAILED and
      ?w2.0 = "(demo_os [] [] (demo_file [] True True))\<lparr>calls := [huge_request 4, plain_request 4]\<rparr>" and
      a = nullptr and prot = PROT_READ and flags = MAP_PRIVATE]
    mmap_allocation_fallback[where
      s = "demo_state [] (demo_os [None, Some 0x1000] [] (demo_file [] True True))" and
      ?s1.0 = "demo_state [] (demo_os [None, Some 0x1000] [] (demo_file [] True True))" and
      fd = 3 and off = 0 and len = 4 and
      ?w1.0 = "snd (libc_mmap (demo_os [None, Some 0x1000] [] (demo_file [] True True)) nullptr 4
          (PROT_READ OR PROT_WRITE) (MAP_PRIVATE OR MAP_ANONYMOUS OR MAP_HUGETLB) (- 1) 0)" and
      ?p2.0 = "0x1000" and
      ?w2.0 = "snd (anon_alloc (demo_os [None, Some 0x1000] [] (demo_file [] True True)) 4)" and
      a = nullptr and prot = PROT_READ and flags = MAP_PRIVATE]
  by (simp add: demo_defs run_defs copy_loop.simps)

section \<open>Protection fix-up\<close>

text \<open>
  Claim C6. After a complete copy \<open>mmap\<close> returns the region's address and records
  the region with the full length, whatever \<open>mprotect\<close> answers. When the requested
  protection has no write bit, the one call made after the copy is \<open>mprotect\<close> of the
  region with exactly the requested protection, and when it succeeds the region has that
  protection; when the requested protection has the write bit, nothing is done after the
  copy.
\<close>

theorem mmap_protection_fixup:
  assumes init: "init_functions s = Return s1"
    and act: "activation (world s) fd off len"
    and al: "anon_alloc (world s1) len = (hm, w1)" and hm: "hm \<noteq> MAP_FAILED"
    and po: "populate w1 fd hm len = (Loaded, w2)"
  shows "\<exists>s'. mmap s a len prot flags fd off = Return (hm, s') \<and>
           allocations s' = \<lparr>addr = hm, size' = len\<rparr> # allocations s \<and>
           (if prot AND PROT_WRITE = 0
            then world s' = snd (mprotect w2 hm len prot) \<and>
                 calls (world s') = calls w2 @ [Mprotect hm len prot] \<and>
                 (fst (mprotect w2 hm len prot) = 0 \<longrightarrow>
                    (\<exists>r. mem (world s') hm = Some r \<and> r_prot r = prot))
            else world s' = w2)"
proof -
  have m: "mmap s a len prot flags fd off = Return (substitute s1 len prot fd)"
    using act by (simp add: mmap_cases[OF init])
  from anon_alloc_success[OF al hm] obtain r0 where r0: "mem w1 hm = Some r0"
    by auto
  from populate_frame[OF po r0] obtain r where r: "mem w2 hm = Some r"
    by auto
  have pr: "fst (mprotect w2 hm len prot) = 0 \<longrightarrow>
        (\<exists>r. mem (snd (mprotect w2 hm len prot)) hm = Some r \<and> r_prot r = prot)"
    using mprotect_region[OF r, of len prot] by auto
  show ?thesis
    using m substitute_loaded[OF al hm po, of prot] pr init_functions_Return(5)[OF init]
    by (simp add: mprotect_calls)
qed

text \<open>
  A read-only request whose \<open>mprotect\<close> fails still succeeds, the region left
  readable and writable; one whose \<open>mprotect\<close> succeeds ends read-only; a writable
  request makes no \<open>mprotect\<close> call.
\<close>

theorem mmap_protection_fixup_witness:
  "init_functions (demo_state [] (demo_os [Some 0x1000] [False] (demo_file [] True True))) =
     Return (demo_state [] (demo_os [Some 0x1000] [False] (demo_file [] True True))) \<and>
   activation (demo_os [Some 0x1000] [False] (demo_file [] True True)) 3 0 4 \<and>
   fst (anon_alloc (demo_os [Some 0x1000] [False] (demo_file [] True True)) 4) = 0x1000 \<and>
   (0x1000 :: ptr) \<noteq> MAP_FAILED \<and>
   fst (populate (snd (anon_alloc (demo_os [Some 0x1000] [False] (demo_file [] True True)) 4)) 3 0x1000 4) = Loaded \<and>
   PROT_READ AND PROT_WRITE = 0 \<and>
   (\<exists>s'. mmap (demo_state [] (demo_os [Some 0x1000] [False] (demo_file [] True True)))
             nullptr 4 PROT_READ MAP_PRIVATE 3 0 = Return (0x1000, s') \<and>
         allocations s' = [\<lparr>addr = 0x1000, size' = 4\<rparr>] \<and>
         calls (world s') = [huge_request 4, Mprotect 0x1000 4 PROT_READ] \<and>
         map_option r_prot (mem (world s') 0x1000) = Some (PROT_READ OR PROT_WRITE) \<and>
         map_option r_bytes (mem (world s') 0x1000) = Some [97, 98, 99, 100]) \<and>
   fst (mprotect (snd (populate (snd (anon_alloc (demo_os [Some 0x1000] [] (demo_file [] True True)) 4)) 3 0x1000 4))
          0x1000 4 PROT_READ) = 0 \<and>
   (\<exists>s'. mmap (demo_state [] (demo_os [Some 0x1000] [] (demo_file [] True True)))
             nullptr 4 PROT_READ MAP_PRIVATE 3 0 = Return (0x1000, s') \<and>
         allocations s' = [\<lparr>addr = 0x1000, size' = 4\<rparr>] \<and>
         map_option r_prot (mem (world s') 0x1000) = Some PROT_READ) \<and>
   (\<exists>s'. mmap (demo_state [] (demo_os [Some 0x1000] [] (demo_file [] True True)))
             nullptr 4 (PROT_READ OR PROT_WRITE) MAP_PRIVATE 3 0 = Return (0x1000, s') \<and>
         calls (world s') = [huge_request 4])"
  using mmap_protection_fixup[where
      s = "demo_state [] (demo_os [Some 0x1000] [False] (demo_file [] True True))" and
      ?s1.0 = "demo_state [] (demo_os [Some 0x1000] [False] (demo_file [] True True))" and
      fd = 3 and off = 0 and len = 4 and hm = "0x1000" and
      ?w1.0 = "snd (anon_alloc (demo_os [Some 0x1000] [False] (demo_file [] True True)) 4)" and
      ?w2.0 = "snd (populate (snd (anon_alloc (demo_os [Some 0x1000] [False] (demo_file [] True True)) 4)) 3 0x1000 4)" and
      a = nullptr and prot = PROT_READ and flags = MAP_PRIVATE]
    mmap_protection_fixup[where
      s = "demo_state [] (demo_os [Some 0x1000] [] (demo_file [] True True))" and
      ?s1.0 = "demo_state [] (demo_os [Some 0x1000] [] (demo_file [] True True))" and
      fd = 3 and off = 0 and len = 4 and hm = "0x1000" and
      ?w1.0 = "snd (anon_alloc (demo_os [Some 0x1000] [] (demo_file [] True True)) 4)" and
      ?w2.0 = "snd (populate (snd (anon_alloc (demo_os [Some 0x1000] [] (demo_file [] True True)) 4)) 3 0x1000 4)" and
      a = nullptr and prot = PROT_READ and flags = MAP_PRIVATE]
    mmap_protection_fixup[where
      s = "demo_state [] (demo_os [Some 0x1000] [] (demo_file [] True True))" and
      ?s1.0 = "demo_state [] (demo_os [Some 0x1000] [] (demo_file [] True True))" and
      fd = 3 and off = 0 and len = 4 and hm = "0x1000" and
      ?w1.0 = "snd (anon_alloc (demo_os [Some 0x1000] [] (demo_file [] True True)) 4)" and
      ?w2.0 = "snd (populate (snd (anon_alloc (demo_os [Some 0x1000] [] (demo_file [] True True)) 4)) 3 0x1000 4)" and
      a = nullptr and prot = "PROT_READ OR PROT_WRITE" and flags = MAP_PRIVATE]
  by (simp add: demo_defs run_defs copy_loop.simps)

section \<open>What activation depends on\<close>

text \<open>
  Claim C9. Under the activation preconditions, which mention the descriptor, the
  offset and the length only, the address hint and the mapping flags do not influence
  \<open>mmap\<close> at all, and the protection influences neither the returned address nor the
  registry. The first call is the huge-page request (null hint, read/write, private and
  anonymous, descriptor \<open>-1\<close>, offset 0); the only other calls are the plain anonymous
  request, a \<open>munmap\<close> or an \<open>mprotect\<close>, so the caller's own request never reaches the
  real \<open>mmap\<close>. A returned region is private and anonymous, and from its allocation
  to the end of the copy it is readable and writable.
\<close>

theorem mmap_activation_ignores_hint_prot_flags:
  assumes init: "init_functions s = Return s1"
    and act: "activation (world s) fd off len"
  shows "mmap s a len prot flags fd off = mmap s a' len prot flags' fd off \<and>
     (\<exists>p s' s''.
        mmap s a len prot flags fd off = Return (p, s') \<and>
        mmap s a' len prot' flags' fd off = Return (p, s'') \<and>
        allocations s'' = allocations s' \<and>
        (\<exists>A B. calls (world s') = calls (world s1) @ huge_request len # A @ B \<and>
           (A = [] \<or> A = [plain_request len]) \<and>
           (B = [] \<or> (\<exists>h. B = [Real_munmap h len]) \<or> (\<exists>h. B = [Mprotect h len prot]))) \<and>
        (p \<noteq> MAP_FAILED \<longrightarrow>
           (\<exists>r. mem (world s') p = Some r \<and>
                (r_flags r = MAP_PRIVATE OR MAP_ANONYMOUS OR MAP_HUGETLB \<or>
                 r_flags r = MAP_PRIVATE OR MAP_ANONYMOUS)))) \<and>
     (\<forall>hm w1 res w2.
        anon_alloc (world s1) len = (hm, w1) \<and> hm \<noteq> MAP_FAILED \<and>
        populate w1 fd hm len = (res, w2) \<longrightarrow>
          (\<exists>r0 r. mem w1 hm = Some r0 \<and> mem w2 hm = Some r \<and>
             r_prot r0 = PROT_READ OR PROT_WRITE \<and> r_prot r = PROT_READ OR PROT_WRITE \<and>
             (r_flags r0 = MAP_PRIVATE OR MAP_ANONYMOUS OR MAP_HUGETLB \<or>
              r_flags r0 = MAP_PRIVATE OR MAP_ANONYMOUS) \<and>
             r_flags r = r_flags r0))"
proof -
  have m: "mmap s x len q g fd off = Return (substitute s1 len q fd)" for x q g
    using act by (simp add: mmap_cases[OF init])
  obtain hm w1 where al: "anon_alloc (world s1) len = (hm, w1)" by fastforce
  obtain p s' where sub: "substitute s1 len prot fd = (p, s')" by fastforce
  obtain p' s'' where sub': "substitute s1 len prot' fd = (p', s'')" by fastforce
  have same: "p' = p" "allocations s'' = allocations s'"
    using substitute_after_alloc(3,4)[OF al, of prot fd prot'] sub sub' by simp_all
  have cl: "\<exists>A B. calls (world s') = calls (world s1) @ huge_request len # A @ B \<and>
           (A = [] \<or> A = [plain_request len]) \<and>
           (B = [] \<or> (\<exists>h. B = [Real_munmap h len]) \<or> (\<exists>h. B = [Mprotect h len prot]))"
    using substitute_calls[of s1 len prot fd] sub by simp
  have rg: "p \<noteq> MAP_FAILED \<longrightarrow>
           (\<exists>r. mem (world s') p = Some r \<and>
                (r_flags r = MAP_PRIVATE OR MAP_ANONYMOUS OR MAP_HUGETLB \<or>
                 r_flags r = MAP_PRIVATE OR MAP_ANONYMOUS))"
    using substitute_region[OF al, of prot fd] sub by simp
  have first: "mmap s a len prot flags fd off = mmap s a' len prot flags' fd off"
    by (simp add: m)
  have second: "\<exists>p s' s''.
        mmap s a len prot flags fd off = Return (p, s') \<and>
        mmap s a' len prot' flags' fd off = Return (p, s'') \<and>
        allocations s'' = allocations s' \<and>
        (\<exists>A B. calls (world s') = calls (world s1) @ huge_request len # A @ B \<and>
           (A = [] \<or> A = [plain_request len]) \<and>
           (B = [] \<or> (\<exists>h. B = [Real_munmap h len]) \<or> (\<exists>h. B = [Mprotect h len prot]))) \<and>
        (p \<noteq> MAP_FAILED \<longrightarrow>
           (\<exists>r. mem (world s') p = Some r \<and>
                (r_flags r = MAP_PRIVATE OR MAP_ANONYMOUS OR MAP_HUGETLB \<or>
                 r_flags r = MAP_PRIVATE OR MAP_ANONYMOUS)))"
  proof -
    have "mmap s a len prot flags fd off = Return (p, s') \<and>
        mmap s a' len prot' flags' fd off = Return (p, s'') \<and>
        allocations s'' = allocations s' \<and>
        (\<exists>A B. calls (world s') = calls (world s1) @ huge_request len # A @ B \<and>
           (A = [] \<or> A = [plain_request len]) \<and>
           (B = [] \<or> (\<exists>h. B = [Real_munmap h len]) \<or> (\<exists>h. B = [Mprotect h len prot]))) \<and>
        (p \<noteq> MAP_FAILED \<longrightarrow>
           (\<exists>r. mem (world s') p = Some r \<and>
                (r_flags r = MAP_PRIVATE OR MAP_ANONYMOUS OR MAP_HUGETLB \<or>
                 r_flags r = MAP_PRIVATE OR MAP_ANONYMOUS)))"
      using cl rg same by (simp add: m sub sub')
    then show ?thesis by blast
  qed
  have third: "\<forall>hm w1 res w2.
        anon_alloc (world s1) len = (hm, w1) \<and> hm \<noteq> MAP_FAILED \<and>
        populate w1 fd hm len = (res, w2) \<longrightarrow>
          (\<exists>r0 r. mem w1 hm = Some r0 \<and> mem w2 hm = Some r \<and>
             r_prot r0 = PROT_READ OR PROT_WRITE \<and> r_prot r = PROT_READ OR PROT_WRITE \<and>
             (r_flags r0 = MAP_PRIVATE OR MAP_ANONYMOUS OR MAP_HUGETLB \<or>
              r_flags r0 = MAP_PRIVATE OR MAP_ANONYMOUS) \<and>
             r_flags r = r_flags r0)"
    using copy_region by blast
  from first second third show ?thesis by blast
qed

text \<open>
  A request with an address hint and \<open>MAP_SHARED\<close> (flag value 1) is answered like
  one without a hint and with \<open>MAP_PRIVATE\<close>.
\<close>

theorem mmap_activation_ignores_hint_prot_flags_witness:
  "init_functions (demo_state [] (demo_os [Some 0x1000] [] (demo_file [] True True))) =
     Return (demo_state [] (demo_os [Some 0x1000] [] (demo_file [] True True))) \<and>
   activation (demo_os [Some 0x1000] [] (demo_file [] True True)) 3 0 4 \<and>
   mmap (demo_state [] (demo_os [Some 0x1000] [] (demo_file [] True True))) 0x5000 4 PROT_READ 1 3 0 =
   mmap (demo_state [] (demo_os [Some 0x1000] [] (demo_file [] True True))) nullptr 4 PROT_READ MAP_PRIVATE 3 0 \<and>
   (\<exists>s'. mmap (demo_state [] (demo_os [Some 0x1000] [] (demo_file [] True True)))
             0x5000 4 PROT_READ 1 3 0 = Return (0x1000, s') \<and>
         allocations s' = [\<lparr>addr = 0x1000, size' = 4\<rparr>] \<and>
         calls (world s') = [huge_request 4, Mprotect 0x1000 4 PROT_READ] \<and>
         map_option r_flags (mem (world s') 0x1000) = Some (MAP_PRIVATE OR MAP_ANONYMOUS OR MAP_HUGETLB)) \<and>
   (\<exists>s''. mmap (demo_state [] (demo_os [Some 0x1000] [] (demo_file [] True True)))
             nullptr 4 (PROT_READ OR PROT_WRITE) MAP_PRIVATE 3 0 = Return (0x1000, s'') \<and>
         allocations s'' = [\<lparr>addr = 0x1000, size' = 4\<rparr>]) \<and>
   map_option r_prot (mem (snd (anon_alloc (demo_os [Some 0x1000] [] (demo_file [] True True)) 4)) 0x1000) =
     Some (PROT_READ OR PROT_WRITE)"
  using mmap_activation_ignores_hint_prot_flags[where
      s = "demo_state [] (demo_os [Some 0x1000] [] (demo_file [] True True))" and
      ?s1.0 = "demo_state [] (demo_os [Some 0x1000] [] (demo_file [] True True))" and
      fd = 3 and off = 0 and len = 4 and a = "0x5000" and prot = PROT_READ and flags = 1 and
      a' = nullptr and flags' = MAP_PRIVATE and prot' = "PROT_READ OR PROT_WRITE"]
  by (simp add: demo_defs run_defs copy_loop.simps)

section \<open>The registry never holds a zero size\<close>

text \<open>
  \<open>untrack_allocation\<close> reports an unknown address as size 0, so \<open>munmap\<close> relies on
  no record having size 0. That holds in every state the wrapper reaches: the registry
  starts empty, \<open>mmap\<close> records a region only after the real \<open>mmap\<close> accepted its
  length, which it never does for length 0, and \<open>munmap\<close> and \<open>cleanup\<close> only remove
  records.
\<close>

lemma sizes_nonzero_fresh: "sizes_nonzero (allocations (fresh w))"
  by (simp add: sizes_nonzero_def fresh_def)

lemma sizes_nonzero_mmap:
  assumes "sizes_nonzero (allocations s)" and "mmap s a len prot flags fd off = Return (p, s')"
  shows "sizes_nonzero (allocations s')"
proof -
  from assms(2) obtain s1 where init: "init_functions s = Return s1"
    by (cases "init_functions s") (simp_all add: mmap_def)
  have a1: "allocations s1 = allocations s" by (rule init_functions_Return(5)[OF init])
  show ?thesis
  proof (cases "activation (world s) fd off len")
    case False
    with assms(2) have "(p, s') = delegate s1 a len prot flags fd off"
      by (simp add: mmap_cases[OF init])
    then have "allocations s' = allocations s1"
      by (auto simp: delegate_def split: prod.splits)
    with a1 assms(1) show ?thesis by simp
  next
    case True
    with assms(2) have sub: "substitute s1 len prot fd = (p, s')"
      by (simp add: mmap_cases[OF init])
    obtain hm w1 where al: "anon_alloc (world s1) len = (hm, w1)" by fastforce
    from substitute_after_alloc(5)[OF al, of prot fd] sub a1 assms(1)
    show ?thesis by (auto simp: sizes_nonzero_def)
  qed
qed

lemma sizes_nonzero_munmap:
  assumes "sizes_nonzero (allocations s)" and "munmap s a len = Return (rc, s')"
  shows "sizes_nonzero (allocations s')"
proof -
  from assms(2) obtain s1 where init: "init_functions s = Return s1"
    by (cases "init_functions s") (simp_all add: munmap_def)
  have a1: "allocations s1 = allocations s" by (rule init_functions_Return(5)[OF init])
  have "allocations s' = snd (untrack_loop a (allocations s))"
    using assms(2) init a1
    by (auto simp: munmap_def untrack_allocation_def Let_def split: prod.splits if_splits)
  then have "set (allocations s') \<subseteq> set (allocations s)"
    using set_remove1_subset by (fastforce simp: untrack_loop_find split: option.splits)
  with assms(1) show ?thesis by (auto simp: sizes_nonzero_def list_all_iff)
qed

lemma sizes_nonzero_cleanup: "sizes_nonzero (allocations (cleanup s))"
  by (simp add: cleanup_drains_aux sizes_nonzero_def)

lemma reachable_sizes_nonzero: "reachable s \<Longrightarrow> sizes_nonzero (allocations s)"
proof (induction rule: reachable.induct)
  case (start w)
  show ?case by (rule sizes_nonzero_fresh)
next
  case (env s w)
  then show ?case by simp
next
  case (loaded s s')
  then show ?case using init_functions_Return(5)[of s s'] by (simp add: init_def)
next
  case (mapped s a len prot flags fd off p s')
  then show ?case using sizes_nonzero_mmap by blast
next
  case (unmapped s a len rc s')
  then show ?case using sizes_nonzero_munmap by blast
next
  case (unloaded s)
  show ?case by (rule sizes_nonzero_cleanup)
qed

lemma demo_mapped_run:
  "mmap (fresh (demo_os [None, Some 0x1000] [] (demo_file [] True True)))
        nullptr 4 PROT_READ MAP_PRIVATE 3 0 = Return (0x1000, demo_mapped)"
  by (simp add: demo_mapped_def demo_defs run_defs copy_loop.simps)

lemma demo_mapped_reachable: "reachable demo_mapped"
  by (rule reachable.mapped[OF reachable.start demo_mapped_run])

lemma demo_mapped_state:
  "demo_mapped =
     \<lparr>real_mmap = 0x7000, real_munmap = 0x7100,
      allocations = [\<lparr>addr = 0x1000, size' = 4\<rparr>],
      world = \<lparr>symbols = demo_symbols,
               files = [3 \<mapsto> \<lparr>f_type = Some HUGETLBFS_MAGIC, stat_ok = True,
                               content = [97, 98, 99, 100], pos = Suc (Suc (Suc (Suc 0))),
                               seekable = True, reads = []\<rparr>],
               mem = [0x1000 \<mapsto> \<lparr>r_prot = PROT_READ,
                                   r_flags = MAP_PRIVATE OR MAP_ANONYMOUS,
                                   r_bytes = [97, 98, 99, 100]\<rparr>],
               mmap_script = [], mprotect_script = [], huge_page_size = 2097152,
               calls = [Dlsym ''mmap'', Dlsym ''munmap'', huge_request 4, plain_request 4,
                        Mprotect 0x1000 4 PROT_READ]\<rparr>\<rparr>"
  by (simp add: demo_mapped_def demo_defs run_defs copy_loop.simps)

text \<open>
  Claim C2. In every reachable state, \<open>munmap\<close> on an address with a record calls the
  real \<open>munmap\<close> with the size of the first such record, whatever length the caller
  gave, and removes that record; on an address with no record it passes the caller's
  address and length to the real \<open>munmap\<close> and leaves the registry as it is.
\<close>

theorem munmap_routes_by_registry:
  assumes "reachable s" and "init_functions s = Return s1"
  shows "\<exists>rc s'. munmap s a len = Return (rc, s') \<and>
     (case find (\<lambda>r. addr r = a) (allocations s) of
        Some r \<Rightarrow>
          (rc, world s') = libc_munmap (world s1) a (size' r) \<and>
          calls (world s') = calls (world s1) @ [Real_munmap a (size' r)] \<and>
          allocations s' = remove1 r (allocations s)
      | None \<Rightarrow>
          (rc, world s') = libc_munmap (world s1) a len \<and>
          calls (world s') = calls (world s1) @ [Real_munmap a len] \<and>
          allocations s' = allocations s)"
  using munmap_by_registry[OF assms(2) reachable_sizes_nonzero[OF assms(1)]] .

text \<open>
  After the example file has been mapped at \<open>0x1000\<close> in plain anonymous memory,
  unmapping it with the wrong length 4096 releases the recorded four bytes and drops the
  record; an address that is not tracked is passed through with the caller's length.
\<close>

theorem munmap_routes_by_registry_witness:
  "reachable demo_mapped \<and>
   init_functions demo_mapped = Return demo_mapped \<and>
   find (\<lambda>r. addr r = 0x1000) (allocations demo_mapped) = Some \<lparr>addr = 0x1000, size' = 4\<rparr> \<and>
   (\<exists>s'. munmap demo_mapped 0x1000 4096 = Return (0, s') \<and>
         calls (world s') = calls (world demo_mapped) @ [Real_munmap 0x1000 4] \<and>
         allocations s' = [] \<and> mem (world s') 0x1000 = None) \<and>
   find (\<lambda>r. addr r = 0x3000) (allocations demo_mapped) = None \<and>
   (\<exists>s'. munmap demo_mapped 0x3000 4096 = Return (0, s') \<and>
         calls (world s') = calls (world demo_mapped) @ [Real_munmap 0x3000 4096] \<and>
         allocations s' = allocations demo_mapped)"
  using munmap_routes_by_registry[of demo_mapped demo_mapped "0x1000" 4096]
    munmap_routes_by_registry[of demo_mapped demo_mapped "0x3000" 4096]
    demo_mapped_reachable
  by (simp add: demo_mapped_state demo_defs run_defs)

end
